theory Spec2Isabelle
  imports Main "HOL-Library.Multiset"
begin

section \<open>Platform primitives used by \<open>src/index.ts\<close>\<close>

text \<open>
  The builder calls a handful of library functions whose behaviour decides the
  properties below: \<open>String.prototype.split\<close>, \<open>String.prototype.startsWith\<close>,
  the \<open>Set\<close> constructor, \<open>Set.prototype.intersection\<close>, \<open>Array.prototype.reduce\<close>
  and \<open>join\<close>, \<open>dirname\<close>, \<open>sep\<close> of \<open>node:path\<close>. They are modelled after
  ECMAScript and after the POSIX flavour of \<open>node:path\<close> (\<open>sep\<close> is \<open>/\<close>).
\<close>

definition sep :: char where
  "sep = CHR ''/''"

text \<open>\<open>path.split(sep)\<close> for a one-character separator: never an empty array.\<close>

fun split :: "char \<Rightarrow> string \<Rightarrow> string list" where
  "split c [] = [[]]"
| "split c (x # xs) =
     (if x = c then [] # split c xs
      else (case split c xs of [] \<Rightarrow> [[x]] | y # ys \<Rightarrow> (x # y) # ys))"

text \<open>\<open>s.startsWith(p)\<close>.\<close>

fun startsWith :: "string \<Rightarrow> string \<Rightarrow> bool" where
  "startsWith s [] = True"
| "startsWith [] (p # ps) = False"
| "startsWith (c # cs) (p # ps) = (c = p \<and> startsWith cs ps)"

text \<open>
  A JavaScript \<open>Set\<close> keeps its elements in insertion order; it is modelled as the
  list of its elements in that order. \<open>new Set(array)\<close> adds the elements one by
  one, and adding an element that is already present changes nothing.
\<close>

definition set_add :: "'a list \<Rightarrow> 'a \<Rightarrow> 'a list" where
  "set_add s x = (if x \<in> set s then s else s @ [x])"

definition new_Set :: "'a list \<Rightarrow> 'a list" where
  "new_Set xs = foldl set_add [] xs"

text \<open>
  \<open>this.intersection(other)\<close> (ECMAScript 2025, 24.2.4.9): when \<open>this\<close> has at most
  as many elements as \<open>other\<close>, the elements of \<open>this\<close> that \<open>other\<close> has are
  appended in the order of \<open>this\<close>; otherwise the elements of \<open>other\<close> that
  \<open>this\<close> has are appended in the order of \<open>other\<close>.
\<close>

definition intersection :: "'a list \<Rightarrow> 'a list \<Rightarrow> 'a list" where
  "intersection this other =
     (if length this \<le> length other
      then new_Set (filter (\<lambda>e. e \<in> set other) this)
      else new_Set (filter (\<lambda>e. e \<in> set this) other))"

text \<open>Values that JavaScript code throws or rejects with.\<close>

datatype js_value =
    JsString string
  | JsError string string  \<comment> \<open>an \<open>Error\<close> object: its \<open>name\<close> and its \<open>message\<close>\<close>

fun instanceof_Error :: "js_value \<Rightarrow> bool" where
  "instanceof_Error (JsError n m) = True"
| "instanceof_Error (JsString s) = False"

text \<open>
  \<open>array.reduce(f)\<close> without an initial value: a \<open>TypeError\<close> on the empty array,
  otherwise a left fold that starts from the first element.
\<close>

definition reduce :: "('a \<Rightarrow> 'a \<Rightarrow> 'a) \<Rightarrow> 'a list \<Rightarrow> js_value + 'a" where
  "reduce f xs =
     (case xs of
        [] \<Rightarrow> Inl (JsError ''TypeError'' ''Reduce of empty array with no initial value'')
      | x # rest \<Rightarrow> Inr (foldl f x rest))"

subsection \<open>\<open>node:path\<close>, POSIX\<close>

text \<open>Segments glued with a separator string, as \<open>joined += `/${arg}`\<close> does.\<close>

fun glue :: "string \<Rightarrow> string list \<Rightarrow> string" where
  "glue s [] = []"
| "glue s [x] = x"
| "glue s (x # y # ys) = x @ s @ glue s (y # ys)"

text \<open>
  One step of \<open>normalizeString\<close> at a separator: empty and \<open>.\<close> segments are
  dropped, \<open>..\<close> removes the last kept segment unless there is none or it is
  itself \<open>..\<close> (then \<open>..\<close> is kept when the path is relative), every other segment
  is kept.
\<close>

definition normalize_step :: "bool \<Rightarrow> string list \<Rightarrow> string \<Rightarrow> string list" where
  "normalize_step allowAboveRoot res seg =
     (if seg = [] \<or> seg = ''.'' then res
      else if seg = ''..'' then
        (if res \<noteq> [] \<and> last res \<noteq> ''..'' then butlast res
         else if allowAboveRoot then res @ [''..''] else res)
      else res @ [seg])"

definition normalizeString :: "string \<Rightarrow> bool \<Rightarrow> string" where
  "normalizeString path allowAboveRoot =
     glue ''/'' (foldl (normalize_step allowAboveRoot) [] (split CHR ''/'' path))"

definition normalize :: "string \<Rightarrow> string" where
  "normalize path =
     (if path = [] then ''.''
      else
        let isAbsolute = (hd path = CHR ''/'');
            trailingSeparator = (last path = CHR ''/'');
            res = normalizeString path (\<not> isAbsolute)
        in if res = [] then
             (if isAbsolute then ''/'' else if trailingSeparator then ''./'' else ''.'')
           else (if isAbsolute then ''/'' else []) @ res
                @ (if trailingSeparator then ''/'' else []))"

text \<open>\<open>join(...args)\<close>: empty arguments are skipped, the rest is glued and normalized.\<close>

definition join :: "string list \<Rightarrow> string" where
  "join args =
     (let joined = filter (\<lambda>arg. arg \<noteq> []) args
      in if joined = [] then ''.'' else normalize (glue ''/'' joined))"

text \<open>
  \<open>dirname(path)\<close>: scanning from the end down to index 1, trailing separators are
  skipped, then the last segment, and the path is cut at the separator found.
\<close>

definition dirname :: "string \<Rightarrow> string" where
  "dirname path =
     (if path = [] then ''.''
      else
        let hasRoot = (hd path = CHR ''/'');
            scanned = dropWhile (\<lambda>c. c \<noteq> CHR ''/'')
                        (dropWhile (\<lambda>c. c = CHR ''/'') (rev (tl path)));
            end = length scanned
        in if scanned = [] then (if hasRoot then ''/'' else ''.'')
           else if hasRoot \<and> end = 1 then ''//''
           else take end path)"

section \<open>The common-ancestor computation\<close>

text \<open>
  \<^verbatim>\<open>const basepath = (paths: string[]) => {
    return join(...[...paths.map((path) => new Set(path.split(sep)))
                            .reduce((acc, cur) => acc.intersection(cur))]);
};\<close>
\<close>

definition common_segments :: "string list \<Rightarrow> js_value + string list" where
  "common_segments paths = reduce intersection (map (\<lambda>path. new_Set (split sep path)) paths)"

definition basepath :: "string list \<Rightarrow> js_value + string" where
  "basepath paths =
     (case common_segments paths of
        Inl e \<Rightarrow> Inl e
      | Inr segments \<Rightarrow> Inr (join segments))"

section \<open>Data of the builder\<close>

text \<open>Bun's \<open>Target\<close>, the bundle formats, and the tags of \<open>log.output\<close>.\<close>

datatype target = Bun | Node | Browser

datatype format = Esm | Cjs | Iife

datatype log_tag = Bundle format | Dts

text \<open>
  A \<open>BuildMessage | ResolveMessage\<close> of the bundler, and the \<open>BuildOutput\<close> that
  \<open>Bun.build\<close> resolves with when \<open>throw\<close> is \<open>false\<close>.
\<close>

datatype level = LvlError | LvlWarning | LvlInfo | LvlDebug | LvlVerbose

record build_message =
  message :: string
  level :: level

record build_output =
  success :: bool
  logs :: "build_message list"

text \<open>Diagnostics of the TypeScript compiler and the result of \<open>program.emit()\<close>.\<close>

datatype diagnostic_category = CatWarning | CatError | CatSuggestion | CatMessage

record diagnostic =
  category :: diagnostic_category

record emit_result =
  emitSkipped :: bool
  diagnostics :: "diagnostic list"

text \<open>
  One run of the compiler inside \<open>writeDtsBundle\<close>: \<open>createProgram\<close> or \<open>emit\<close>
  throws, or the run yields the pre-emit diagnostics and the emit result.
\<close>

datatype tsc_run =
    Tsc_throws js_value
  | Tsc_ran "diagnostic list" emit_result

text \<open>The \<open>Manifest\<close> fields the builder reads; \<open>cdn\<close> is optional.\<close>

record manifest =
  entry :: string
  main :: string
  module :: string
  types :: string
  cdn :: "string option"

text \<open>
  The configuration fields of \<open>Builder\<close> that decide control flow. The plugin
  list, the externals and the extra bundler options are handed to \<open>Bun.build\<close>
  unchanged and are part of what the bundler answers with. The \<open>watch\<close> flag is
  read by \<open>from\<close> alone, which starts \<open>watchFiles\<close> without awaiting it and then
  awaits \<open>build\<close>; the two methods are modelled one by one.
\<close>

record builder =
  target :: target
  watch :: bool
  clean :: bool
  verbose :: bool

text \<open>
  Everything outside the process that one build consults: the working
  directory, the file system (asked at absolute locations), the bundler and the
  compiler.
\<close>

record env =
  cwd :: string
  fs_exists :: "string \<Rightarrow> bool"
  fs_rm :: "string \<Rightarrow> js_value option"  \<comment> \<open>\<open>None\<close>: removed; \<open>Some e\<close>: rejects with \<open>e\<close>\<close>
  bun_build :: "format \<Rightarrow> string \<Rightarrow> string \<Rightarrow> build_output"
  tsc :: "string \<Rightarrow> string \<Rightarrow> tsc_run"

text \<open>
  What the process does that can be observed, in order. The texts of
  \<open>log.output\<close> are kept as their parts (entry and output directory) rather than
  as styled strings.
\<close>

datatype out_message = Announce string string | Built string

datatype event =
    Log_error string
  | Log_neutral
  | Log_output log_tag out_message
  | Console_log_helpers  \<comment> \<open>\<open>console.log(log)\<close>: prints the \<open>log\<close> helper object\<close>
  | Console_clear
  | Call_bun_build format string string
  | Call_tsc string string
  | Call_rm string  \<comment> \<open>\<open>rm(path, { recursive: true, force: true })\<close>\<close>
  | Abort  \<comment> \<open>\<open>abortController.abort()\<close>\<close>

record process =
  aborted :: bool
  trace :: "event list"

text \<open>
  How a method ends: it returns, it throws (an \<open>async\<close> method rejects), or the
  process has exited with a status, after which nothing runs.
\<close>

datatype outcome =
    Returned process
  | Threw js_value process
  | Exited nat process

fun then_do :: "outcome \<Rightarrow> (process \<Rightarrow> outcome) \<Rightarrow> outcome" where
  "then_do (Returned s) f = f s"
| "then_do (Threw e s) f = Threw e s"
| "then_do (Exited n s) f = Exited n s"

fun final :: "outcome \<Rightarrow> process" where
  "final (Returned s) = s"
| "final (Threw e s) = s"
| "final (Exited n s) = s"

definition emit :: "event \<Rightarrow> process \<Rightarrow> process" where
  "emit ev s = s\<lparr>trace := trace s @ [ev]\<rparr>"

text \<open>
  A relative path handed to the file system is resolved against the working
  directory of the process.
\<close>

definition fs_location :: "string \<Rightarrow> string \<Rightarrow> string" where
  "fs_location wd path = (if startsWith path ''/'' then path else wd @ ''/'' @ path)"

text \<open>JavaScript truthiness of an optional string: present and not empty.\<close>

fun truthy :: "string option \<Rightarrow> bool" where
  "truthy None = False"
| "truthy (Some s) = (s \<noteq> [])"

fun error_message :: "js_value \<Rightarrow> string" where
  "error_message (JsError n m) = m"
| "error_message (JsString s) = []"

fun error_name :: "js_value \<Rightarrow> string" where
  "error_name (JsError n m) = n"
| "error_name (JsString s) = []"

section \<open>The methods of \<open>Builder\<close>\<close>

text \<open>
  \<^verbatim>\<open>private terminate() {
    this.abortController.abort();
    process.exit(1);
}\<close>
\<close>

definition terminate :: "process \<Rightarrow> outcome" where
  "terminate s = Exited 1 (emit Abort (s\<lparr>aborted := True\<rparr>))"

text \<open>
  \<open>reportOutput\<close>: a \<open>switch (true)\<close> whose first case is \<open>level === "error"\<close>
  and whose second case is \<open>this.verbose === true && level !== "error"\<close>.
\<close>

definition reportOutput :: "builder \<Rightarrow> build_message \<Rightarrow> process \<Rightarrow> outcome" where
  "reportOutput b msg s =
     (if level msg = LvlError then terminate (emit (Log_error (message msg)) s)
      else if verbose b = True \<and> level msg \<noteq> LvlError then Returned (emit Console_log_helpers s)
      else Returned s)"

text \<open>\<open>for (const message of result.logs) this.reportOutput(message)\<close>.\<close>

fun report_logs :: "builder \<Rightarrow> build_message list \<Rightarrow> process \<Rightarrow> outcome" where
  "report_logs b [] s = Returned s"
| "report_logs b (msg # rest) s = then_do (reportOutput b msg s) (report_logs b rest)"

definition buildCommonBundle ::
  "builder \<Rightarrow> env \<Rightarrow> format \<Rightarrow> string \<Rightarrow> string \<Rightarrow> process \<Rightarrow> outcome" where
  "buildCommonBundle b e fmt entry_path outDir s =
     (let s1 = emit (Log_output (Bundle fmt) (Announce entry_path outDir)) s;
          s2 = emit (Call_bun_build fmt entry_path outDir) s1;
          result = bun_build e fmt entry_path outDir
      in if success result
         then Returned (emit (Log_output (Bundle fmt) (Built outDir)) s2)
         else report_logs b (logs result) s2)"

text \<open>
  \<open>writeDtsBundle\<close>: the promise rejects with the \<^emph>\<open>string\<close>
  \<open>"Error during .d.ts emit"\<close> on an error diagnostic or a skipped emit, and
  with whatever the compiler threw otherwise.
\<close>

definition writeDtsBundle :: "env \<Rightarrow> string \<Rightarrow> string \<Rightarrow> js_value + unit" where
  "writeDtsBundle e entry_path outDir =
     (case tsc e entry_path outDir of
        Tsc_throws err \<Rightarrow> Inl err
      | Tsc_ran pre result \<Rightarrow>
          if list_ex (\<lambda>diag. category diag = CatError) (pre @ diagnostics result)
          then Inl (JsString ''Error during .d.ts emit'')
          else if emitSkipped result then Inl (JsString ''Error during .d.ts emit'')
          else Inr ())"

text \<open>
  \<open>buildDts\<close>: the \<open>catch\<close> block logs and terminates only when
  \<open>e instanceof Error\<close>; any other rejection value is swallowed.
\<close>

definition buildDts :: "builder \<Rightarrow> env \<Rightarrow> string \<Rightarrow> string \<Rightarrow> process \<Rightarrow> outcome" where
  "buildDts b e entry_path outDir s =
     (let s1 = emit (Log_output Dts (Announce entry_path outDir)) s;
          s2 = emit (Call_tsc entry_path outDir) s1
      in case writeDtsBundle e entry_path outDir of
           Inr u \<Rightarrow> Returned (emit (Log_output Dts (Built outDir)) s2)
         | Inl err \<Rightarrow>
             if instanceof_Error err
             then terminate (emit (Log_error (error_message err)) s2)
             else Returned s2)"

text \<open>
  The output root of \<open>build\<close>: \<open>basepath([cjs, esm, types])\<close> over the directories
  of the three resolved output files.
\<close>

definition output_root :: "string \<Rightarrow> manifest \<Rightarrow> js_value + string" where
  "output_root root m =
     basepath [dirname (join [root, main m]),
               dirname (join [root, module m]),
               dirname (join [root, types m])]"

text \<open>\<open>if (this.clean && (await exists(base))) await rm(base, {recursive, force})\<close>.\<close>

definition clean_step :: "builder \<Rightarrow> env \<Rightarrow> string \<Rightarrow> process \<Rightarrow> outcome" where
  "clean_step b e base s =
     (if clean b \<and> fs_exists e (fs_location (cwd e) base)
      then (case fs_rm e (fs_location (cwd e) base) of
              None \<Rightarrow> Returned (emit (Call_rm base) s)
            | Some err \<Rightarrow> Threw err (emit (Call_rm base) s))
      else Returned s)"

definition iife_step :: "builder \<Rightarrow> env \<Rightarrow> manifest \<Rightarrow> process \<Rightarrow> outcome" where
  "iife_step b e m s =
     (if truthy (cdn m) \<and> target b = Browser
      then buildCommonBundle b e Iife (join [cwd e, entry m])
             (dirname (join [cwd e, the (cdn m)])) s
      else Returned s)"

definition build :: "builder \<Rightarrow> env \<Rightarrow> manifest \<Rightarrow> process \<Rightarrow> outcome" where
  "build b e m s =
     (let root = cwd e;
          entry_path = join [root, entry m];
          cjs = dirname (join [root, main m]);
          esm = dirname (join [root, module m]);
          types_dir = dirname (join [root, types m])
      in case basepath [cjs, esm, types_dir] of
           Inl err \<Rightarrow> Threw err s
         | Inr base \<Rightarrow>
             then_do (clean_step b e base s) (\<lambda>s.
             then_do (buildCommonBundle b e Esm entry_path esm s) (\<lambda>s.
             then_do (buildCommonBundle b e Cjs entry_path cjs s) (\<lambda>s.
             then_do (iife_step b e m s) (\<lambda>s.
             buildDts b e entry_path types_dir s)))))"

text \<open>
  \<open>watchFiles\<close>. The subscription \<open>watch(dirname(manifest.entry), ...)\<close> is the
  list of the notifications it delivers. A notification is a change (its
  \<open>filename\<close> may be \<open>null\<close>), delivered together with the surroundings the
  rebuild will meet, or a fault of the subscription; the \<open>catch\<close> block turns an
  \<open>Error\<close> named \<open>AbortError\<close> into a plain return and rethrows anything else.
\<close>

datatype notification =
    Change "string option" env
  | Fault js_value

definition ignored :: "string \<Rightarrow> string option \<Rightarrow> bool" where
  "ignored output filename =
     (case filename of None \<Rightarrow> False | Some name \<Rightarrow> startsWith name output)"

fun watch_loop ::
  "builder \<Rightarrow> manifest \<Rightarrow> string \<Rightarrow> notification list \<Rightarrow> process \<Rightarrow> outcome" where
  "watch_loop b m output [] s = Returned s"
| "watch_loop b m output (Change filename e # rest) s =
     (if ignored output filename then watch_loop b m output rest s
      else then_do (build b e m (emit Log_neutral (emit Console_clear s)))
             (watch_loop b m output rest))"
| "watch_loop b m output (Fault err # rest) s = Threw err s"

definition watchFiles :: "builder \<Rightarrow> manifest \<Rightarrow> notification list \<Rightarrow> process \<Rightarrow> outcome" where
  "watchFiles b m notifications s =
     (case basepath [main m, module m, types m] of
        Inl err \<Rightarrow> Threw err s
      | Inr output \<Rightarrow>
          (case watch_loop b m output notifications s of
             Threw err s' \<Rightarrow>
               if instanceof_Error err \<and> error_name err = ''AbortError''
               then Returned s' else Threw err s'
           | other \<Rightarrow> other))"

section \<open>Vocabulary of the properties\<close>

text \<open>The events a method adds to the trace it was started with.\<close>

definition events_since :: "process \<Rightarrow> outcome \<Rightarrow> event list" where
  "events_since s out = drop (length (trace s)) (trace (final out))"

text \<open>
  A bundler answer that makes \<open>buildCommonBundle\<close> meet an error-severity
  diagnostic: the build failed and one of its logs has level \<open>error\<close>.
\<close>

definition fatal :: "build_output \<Rightarrow> bool" where
  "fatal r = (\<not> success r \<and> list_ex (\<lambda>msg. level msg = LvlError) (logs r))"

text \<open>The cleanup of a build does not reject.\<close>

definition cleanup_passes :: "builder \<Rightarrow> env \<Rightarrow> manifest \<Rightarrow> bool" where
  "cleanup_passes b e m =
     (case output_root (cwd e) m of
        Inl err \<Rightarrow> False
      | Inr base \<Rightarrow>
          \<not> (clean b \<and> fs_exists e (fs_location (cwd e) base)
             \<and> fs_rm e (fs_location (cwd e) base) \<noteq> None))"

text \<open>Calls of \<open>rm\<close>, and what the message-reporting policy and \<open>terminate\<close> add.\<close>

fun is_removal :: "event \<Rightarrow> bool" where
  "is_removal (Call_rm p) = True"
| "is_removal ev = False"

fun is_report :: "event \<Rightarrow> bool" where
  "is_report (Log_error text) = True"
| "is_report Console_log_helpers = True"
| "is_report Abort = True"
| "is_report ev = False"

text \<open>The entries that only the report of an error-severity diagnostic adds.\<close>

fun is_error_entry :: "event \<Rightarrow> bool" where
  "is_error_entry (Log_error text) = True"
| "is_error_entry Abort = True"
| "is_error_entry ev = False"

text \<open>A method appends events to the trace, each of which satisfies \<open>P\<close>.\<close>

definition adds :: "(event \<Rightarrow> bool) \<Rightarrow> process \<Rightarrow> outcome \<Rightarrow> bool" where
  "adds P s out = (\<exists>evs. trace (final out) = trace s @ evs \<and> list_all P evs)"

text \<open>Events that belong to the emission of one tag.\<close>

fun about :: "log_tag \<Rightarrow> event \<Rightarrow> bool" where
  "about tag (Log_output t msg) = (t = tag)"
| "about tag (Call_bun_build fmt p d) = (tag = Bundle fmt)"
| "about tag (Call_tsc p d) = (tag = Dts)"
| "about tag ev = False"

text \<open>A path lies under a root directory: it is the root or continues it after a separator.\<close>

definition under_root :: "string \<Rightarrow> string \<Rightarrow> bool" where
  "under_root root path = (path = root \<or> startsWith path (root @ [sep]))"

text \<open>
  A segment shared by all paths, and lists of paths in which the shared
  segments come in the same order in every path.
\<close>

definition shared :: "string list \<Rightarrow> string \<Rightarrow> bool" where
  "shared paths seg = list_all (\<lambda>p. seg \<in> set (split sep p)) paths"


text \<open>
  The specification's words for the output root, to compare \<open>basepath\<close> with:
  the deepest common ancestor directory of the given paths, that is the longest
  run of leading segments that all of them share.
\<close>

fun common_prefix :: "'a list \<Rightarrow> 'a list \<Rightarrow> 'a list" where
  "common_prefix (x # xs) (y # ys) = (if x = y then x # common_prefix xs ys else [])"
| "common_prefix xs ys = []"

definition spec_deepest_common_ancestor :: "string list \<Rightarrow> string" where
  "spec_deepest_common_ancestor paths =
     (case map (split sep) paths of
        [] \<Rightarrow> []
      | first # rest \<Rightarrow> glue [sep] (foldl common_prefix first rest))"

subsection \<open>Sample inputs\<close>

text \<open>\<open>defaultOptions\<close> and the default target \<open>"bun"\<close>.\<close>

definition defaultOptions :: builder where
  "defaultOptions = \<lparr>target = Bun, watch = True, clean = True, verbose = False\<rparr>"

definition sample_manifest :: manifest where
  "sample_manifest =
     \<lparr>entry = ''./src/index.ts'', main = ''./dist/cjs/index.js'',
      module = ''./dist/esm/index.js'', types = ''./dist/types/index.d.ts'',
      cdn = None\<rparr>"

text \<open>The output directories of the sample build, in two orders.\<close>

definition sample_dirs :: "string list" where
  "sample_dirs = [''/w/dist/cjs'', ''/w/dist/esm'', ''/w/dist/types'']"


definition ok_output :: build_output where
  "ok_output = \<lparr>success = True, logs = []\<rparr>"

definition ok_run :: tsc_run where
  "ok_run = Tsc_ran [] \<lparr>emitSkipped = False, diagnostics = []\<rparr>"

text \<open>Surroundings in which nothing exists yet and every tool succeeds.\<close>

definition calm :: env where
  "calm = \<lparr>cwd = ''/w'', fs_exists = (\<lambda>p. False), fs_rm = (\<lambda>p. None),
           bun_build = (\<lambda>fmt p d. ok_output), tsc = (\<lambda>p d. ok_run)\<rparr>"

definition fresh :: process where
  "fresh = \<lparr>aborted = False, trace = []\<rparr>"

text \<open>The compiler reports an error diagnostic and skips the emit.\<close>

definition failing_dts :: env where
  "failing_dts =
     calm\<lparr>tsc := (\<lambda>p d. Tsc_ran [\<lparr>category = CatError\<rparr>]
                              \<lparr>emitSkipped = True, diagnostics = []\<rparr>)\<rparr>"

text \<open>The bundler fails on the esm bundle with one error, after a warning.\<close>

definition failing_esm :: env where
  "failing_esm =
     calm\<lparr>bun_build := (\<lambda>fmt p d.
        if fmt = Esm
        then \<lparr>success = False,
              logs = [\<lparr>message = ''unused import'', level = LvlWarning\<rparr>,
                      \<lparr>message = ''could not resolve'', level = LvlError\<rparr>]\<rparr>
        else ok_output)\<rparr>"

text \<open>The bundler succeeds and still hands back a warning.\<close>

definition warning_on_success :: env where
  "warning_on_success =
     calm\<lparr>bun_build := (\<lambda>fmt p d.
        \<lparr>success = True, logs = [\<lparr>message = ''unused import'', level = LvlWarning\<rparr>]\<rparr>)\<rparr>"

text \<open>The bundler fails and hands back nothing but a warning.\<close>

definition warnings_only :: env where
  "warnings_only =
     calm\<lparr>bun_build := (\<lambda>fmt p d.
        \<lparr>success = False, logs = [\<lparr>message = ''unused import'', level = LvlWarning\<rparr>]\<rparr>)\<rparr>"

text \<open>The bundler fails with two errors.\<close>

definition two_errors :: env where
  "two_errors =
     calm\<lparr>bun_build := (\<lambda>fmt p d.
        \<lparr>success = False,
         logs = [\<lparr>message = ''could not resolve'', level = LvlError\<rparr>,
                 \<lparr>message = ''unexpected token'', level = LvlError\<rparr>]\<rparr>)\<rparr>"

definition verbose_options :: builder where
  "verbose_options = defaultOptions\<lparr>verbose := True\<rparr>"

definition browser_options :: builder where
  "browser_options = defaultOptions\<lparr>target := Browser\<rparr>"

definition cdn_manifest :: manifest where
  "cdn_manifest = sample_manifest\<lparr>cdn := Some ''./dist/cdn/index.js''\<rparr>"

text \<open>The output directory of the sample build is there, left by an earlier build.\<close>

definition leftover :: env where
  "leftover = calm\<lparr>fs_exists := (\<lambda>p. p = ''/w/dist'')\<rparr>"

text \<open>The output root of the sample build exists where the file system looks for it.\<close>

definition stale :: env where
  "stale = calm\<lparr>fs_exists := (\<lambda>p. p = ''/w/w/dist'')\<rparr>"

section \<open>Basic facts about the model\<close>

lemmas run_defs = build_def clean_step_def iife_step_def buildCommonBundle_def buildDts_def
  writeDtsBundle_def reportOutput_def terminate_def emit_def Let_def

lemmas path_defs = basepath_def common_segments_def reduce_def intersection_def new_Set_def
  set_add_def sep_def join_def normalize_def normalizeString_def normalize_step_def dirname_def
  fs_location_def output_root_def

lemmas sample_defs = defaultOptions_def sample_manifest_def ok_output_def ok_run_def calm_def
  fresh_def

lemma adds_refl: "adds P s (Returned s)"
  by (simp add: adds_def)

lemma adds_then_do:
  assumes "adds P s out" and "\<And>s'. adds P s' (g s')"
  shows "adds P s (then_do out g)"
proof (cases out)
  case (Returned s1)
  from assms(1) Returned obtain evs where e1: "trace s1 = trace s @ evs" "list_all P evs"
    by (auto simp: adds_def)
  from assms(2)[of s1] obtain evs'
    where e2: "trace (final (g s1)) = trace s1 @ evs'" "list_all P evs'"
    by (auto simp: adds_def)
  from e1 e2 have "trace (final (g s1)) = trace s @ (evs @ evs')" "list_all P (evs @ evs')"
    by simp_all
  then show ?thesis using Returned unfolding adds_def by (metis then_do.simps(1))
next
  case (Threw err s1)
  then show ?thesis using assms(1) by simp
next
  case (Exited n s1)
  then show ?thesis using assms(1) by simp
qed

lemma adds_events: "adds P s out \<Longrightarrow> list_all P (events_since s out)"
  by (auto simp: adds_def events_since_def)

lemma adds_mono: "adds P s out \<Longrightarrow> (\<And>ev. P ev \<Longrightarrow> Q ev) \<Longrightarrow> adds Q s out"
  unfolding adds_def list_all_iff by blast

subsection \<open>The reporting loop\<close>

lemma report_logs_adds: "adds is_report s (report_logs b ms s)"
proof (induction ms arbitrary: s)
  case Nil
  show ?case by (simp add: adds_refl)
next
  case (Cons m ms)
  have "adds is_report s (reportOutput b m s)"
    by (simp add: reportOutput_def terminate_def adds_def emit_def)
  then show ?case using Cons by (simp add: adds_then_do)
qed

lemma report_logs_append:
  "\<forall>m\<in>set pre. level m \<noteq> LvlError \<Longrightarrow>
   report_logs b (pre @ rest) s =
     report_logs b rest
       (s\<lparr>trace := trace s
            @ (if verbose b then replicate (length pre) Console_log_helpers else [])\<rparr>)"
proof (induction pre arbitrary: s)
  case Nil
  then show ?case by simp
next
  case (Cons m ms)
  then show ?case
    by (simp add: reportOutput_def emit_def replicate_app_Cons_same)
qed

lemma report_logs_fatal:
  assumes "list_ex (\<lambda>msg. level msg = LvlError) ms"
  shows "\<exists>s'. report_logs b ms s = Exited 1 s' \<and> aborted s'"
proof -
  from assms obtain pre err post where
    d: "ms = pre @ err # post" "level err = LvlError" "\<forall>m\<in>set pre. level m \<noteq> LvlError"
    unfolding list_ex_iff
    using split_list_first_prop[of ms "\<lambda>msg. level msg = LvlError"] by blast
  show ?thesis unfolding d(1)
    by (simp add: report_logs_append[OF d(3)] d(2) reportOutput_def terminate_def emit_def)
qed

subsection \<open>What each step adds to the trace\<close>

lemma buildCommonBundle_adds:
  "adds (\<lambda>ev. about (Bundle fmt) ev \<or> is_report ev) s (buildCommonBundle b e fmt p d s)"
proof (cases "success (bun_build e fmt p d)")
  case True
  then show ?thesis by (simp add: buildCommonBundle_def adds_def emit_def)
next
  case False
  let ?s2 = "emit (Call_bun_build fmt p d) (emit (Log_output (Bundle fmt) (Announce p d)) s)"
  from report_logs_adds[of ?s2 b "logs (bun_build e fmt p d)"]
  obtain evs where
    "trace (final (report_logs b (logs (bun_build e fmt p d)) ?s2)) = trace ?s2 @ evs"
    "list_all is_report evs" by (auto simp: adds_def)
  then show ?thesis using False
    by (auto simp add: buildCommonBundle_def adds_def emit_def list_all_iff)
qed

lemma buildDts_adds: "adds (\<lambda>ev. about Dts ev \<or> is_report ev) s (buildDts b e p d s)"
  by (auto simp add: buildDts_def adds_def emit_def terminate_def Let_def split: sum.splits)

lemma iife_step_adds:
  "adds (\<lambda>ev. about (Bundle Iife) ev \<or> is_report ev) s (iife_step b e m s)"
  by (simp add: iife_step_def buildCommonBundle_adds adds_refl)

lemma clean_step_adds: "adds is_removal s (clean_step b e base s)"
  by (simp add: clean_step_def adds_def emit_def split: option.splits)

lemma buildCommonBundle_fatal:
  assumes "fatal (bun_build e fmt p d)"
  shows "\<exists>s'. buildCommonBundle b e fmt p d s = Exited 1 s' \<and> aborted s'"
  using assms report_logs_fatal unfolding fatal_def buildCommonBundle_def
  by (simp add: Let_def)

lemma output_root_total: "\<exists>base. output_root root m = Inr base"
  by (simp add: output_root_def basepath_def common_segments_def reduce_def)

lemma build_unfold:
  assumes "output_root (cwd e) m = Inr base"
  shows "build b e m s =
     then_do (clean_step b e base s) (\<lambda>s.
     then_do (buildCommonBundle b e Esm (join [cwd e, entry m])
                (dirname (join [cwd e, module m])) s) (\<lambda>s.
     then_do (buildCommonBundle b e Cjs (join [cwd e, entry m])
                (dirname (join [cwd e, main m])) s) (\<lambda>s.
     then_do (iife_step b e m s) (\<lambda>s.
     buildDts b e (join [cwd e, entry m]) (dirname (join [cwd e, types m])) s))))"
  using assms by (simp add: build_def output_root_def Let_def)

lemma clean_step_passes:
  assumes "cleanup_passes b e m" and "output_root (cwd e) m = Inr base"
  shows "\<exists>s'. clean_step b e base s = Returned s' \<and> aborted s' = aborted s
     \<and> adds is_removal s (Returned s')"
  using assms by (auto simp: cleanup_passes_def clean_step_def adds_def emit_def)

section \<open>Declaration emission\<close>

text \<open>
  Whatever the diagnostics of a compiler run are, \<open>buildDts\<close> returns without
  logging an error and without terminating: the rejection value of
  \<open>writeDtsBundle\<close> is a string, which the \<open>instanceof Error\<close> test of the
  \<open>catch\<close> block lets pass.
\<close>

lemma buildDts_after_run:
  assumes "tsc e p d = Tsc_ran pre result"
  shows "\<exists>s'. buildDts b e p d s = Returned s' \<and> aborted s' = aborted s
     \<and> list_all (about Dts) (events_since s (Returned s'))"
  using assms
  by (simp add: buildDts_def writeDtsBundle_def events_since_def emit_def Let_def)

text \<open>
  An \<open>Error\<close> thrown by the compiler itself does reach the termination routine:
  this is the path the \<open>catch\<close> block was written for.
\<close>

lemma buildDts_after_throw:
  assumes "tsc e p d = Tsc_throws (JsError name text)"
  shows "buildDts b e p d s =
     Exited 1 (s\<lparr>aborted := True, trace := trace s @
       [Log_output Dts (Announce p d), Call_tsc p d, Log_error text, Abort]\<rparr>)"
  using assms
  by (simp add: buildDts_def writeDtsBundle_def terminate_def emit_def Let_def)

text \<open>
  C1. The claim: whenever declaration emission fails (an error diagnostic, or a
  skipped emit), \<open>buildDts\<close> invokes the termination routine, so that no
  declaration failure completes the build cycle silently. The code does
  otherwise: with a compiler run that reports an error diagnostic and skips the
  emit, the whole build returns normally, the abort signal is not raised, the
  process does not exit, and the trace holds neither an error entry nor the
  line that announces the built declarations.
\<close>

theorem dts_failure_completes_silently:
  "build defaultOptions failing_dts sample_manifest fresh =
     Returned \<lparr>aborted = False, trace =
       [Log_output (Bundle Esm) (Announce ''/w/src/index.ts'' ''/w/dist/esm''),
        Call_bun_build Esm ''/w/src/index.ts'' ''/w/dist/esm'',
        Log_output (Bundle Esm) (Built ''/w/dist/esm''),
        Log_output (Bundle Cjs) (Announce ''/w/src/index.ts'' ''/w/dist/cjs''),
        Call_bun_build Cjs ''/w/src/index.ts'' ''/w/dist/cjs'',
        Log_output (Bundle Cjs) (Built ''/w/dist/cjs''),
        Log_output Dts (Announce ''/w/src/index.ts'' ''/w/dist/types''),
        Call_tsc ''/w/src/index.ts'' ''/w/dist/types'']\<rparr>"
  by (simp add: run_defs path_defs sample_defs failing_dts_def)

section \<open>An error during esm emission\<close>

text \<open>
  C4. In every build cycle whose cleanup passes and in which the bundler answers
  the esm request with a failure that carries an error-severity diagnostic, the
  process exits with status 1 after raising the abort signal, and the cycle adds
  no event of the cjs, iife or declaration emission to the trace: none of them
  is started.
\<close>

theorem esm_error_ends_cycle:
  assumes "cleanup_passes b e m"
    and "fatal (bun_build e Esm (join [cwd e, entry m]) (dirname (join [cwd e, module m])))"
  shows "\<exists>s'. build b e m s = Exited 1 s' \<and> aborted s'
     \<and> list_all (\<lambda>ev. \<not> about (Bundle Cjs) ev \<and> \<not> about (Bundle Iife) ev \<and> \<not> about Dts ev)
          (events_since s (build b e m s))"
proof -
  obtain base where base: "output_root (cwd e) m = Inr base"
    using output_root_total by blast
  obtain s1 where s1: "clean_step b e base s = Returned s1" "adds is_removal s (Returned s1)"
    using clean_step_passes[OF assms(1) base] by blast
  let ?esm = "buildCommonBundle b e Esm (join [cwd e, entry m])
                (dirname (join [cwd e, module m])) s1"
  obtain s2 where s2: "?esm = Exited 1 s2" "aborted s2"
    using buildCommonBundle_fatal[OF assms(2)] by blast
  have run: "build b e m s = Exited 1 s2"
    by (simp add: build_unfold[OF base] s1 s2)
  have "adds (\<lambda>ev. about (Bundle Esm) ev \<or> is_report ev) s1 ?esm"
    by (rule buildCommonBundle_adds)
  then have "adds (\<lambda>ev. is_removal ev \<or> about (Bundle Esm) ev \<or> is_report ev) s (Exited 1 s2)"
    using s1(2) unfolding s2(1) adds_def list_all_iff by auto
  then have "list_all (\<lambda>ev. is_removal ev \<or> about (Bundle Esm) ev \<or> is_report ev)
               (events_since s (build b e m s))"
    unfolding run by (rule adds_events)
  moreover have "\<not> about (Bundle Cjs) ev \<and> \<not> about (Bundle Iife) ev \<and> \<not> about Dts ev"
    if "is_removal ev \<or> about (Bundle Esm) ev \<or> is_report ev" for ev
    using that by (cases ev) auto
  ultimately show ?thesis using run s2(2) unfolding list_all_iff by blast
qed

theorem esm_error_ends_cycle_witness:
  "cleanup_passes defaultOptions failing_esm sample_manifest
   \<and> fatal (bun_build failing_esm Esm (join [cwd failing_esm, entry sample_manifest])
             (dirname (join [cwd failing_esm, module sample_manifest])))
   \<and> (\<exists>s'. build defaultOptions failing_esm sample_manifest fresh = Exited 1 s' \<and> aborted s'
        \<and> list_all (\<lambda>ev. \<not> about (Bundle Cjs) ev \<and> \<not> about (Bundle Iife) ev \<and> \<not> about Dts ev)
            (events_since fresh (build defaultOptions failing_esm sample_manifest fresh)))"
proof -
  have c: "cleanup_passes defaultOptions failing_esm sample_manifest"
    by (simp add: cleanup_passes_def path_defs sample_defs failing_esm_def)
  have f: "fatal (bun_build failing_esm Esm (join [cwd failing_esm, entry sample_manifest])
             (dirname (join [cwd failing_esm, module sample_manifest])))"
    by (simp add: fatal_def sample_defs failing_esm_def)
  from esm_error_ends_cycle[OF c f, of fresh] c f show ?thesis
    by blast
qed

lemma rest_steps_adds:
  "adds (\<lambda>ev. \<not> is_removal ev) s1
     (then_do (buildCommonBundle b e Esm p d1 s1) (\<lambda>s.
      then_do (buildCommonBundle b e Cjs p d2 s) (\<lambda>s.
      then_do (iife_step b e m s) (\<lambda>s.
      buildDts b e p d3 s))))"
proof -
  have nr: "\<not> is_removal ev" if "about tag ev \<or> is_report ev" for tag ev
    using that by (cases ev) auto
  have a: "adds (\<lambda>ev. \<not> is_removal ev) s (buildCommonBundle b e fmt p d s)" for fmt d s
    by (rule adds_mono[OF buildCommonBundle_adds]) (rule nr)
  have i: "adds (\<lambda>ev. \<not> is_removal ev) s (iife_step b e m s)" for s
    by (rule adds_mono[OF iife_step_adds]) (rule nr)
  have t: "adds (\<lambda>ev. \<not> is_removal ev) s (buildDts b e p d3 s)" for s
    by (rule adds_mono[OF buildDts_adds]) (rule nr)
  show ?thesis
    by (rule adds_then_do[OF a], rule adds_then_do[OF a], rule adds_then_do[OF i], rule t)
qed

section \<open>Cleanup before emission\<close>

text \<open>
  C6. Let \<open>base\<close> be the output root that \<open>build\<close> computes. When the clean flag
  is enabled and \<open>base\<close> exists (where the file system looks for it), the first
  thing the build does is the recursive removal of \<open>base\<close>, so every bundle and
  declaration emission comes after it, and nothing else is removed. When
  \<open>base\<close> does not exist, or the clean flag is disabled, the build removes
  nothing.
\<close>

theorem cleanup_precedes_emission:
  assumes "output_root (cwd e) m = Inr base"
  shows "(clean b \<and> fs_exists e (fs_location (cwd e) base) \<longrightarrow>
            (\<exists>rest. events_since s (build b e m s) = Call_rm base # rest
                 \<and> list_all (\<lambda>ev. \<not> is_removal ev) rest))
       \<and> (\<not> (clean b \<and> fs_exists e (fs_location (cwd e) base)) \<longrightarrow>
            list_all (\<lambda>ev. \<not> is_removal ev) (events_since s (build b e m s)))"
proof -
  let ?rest = "\<lambda>s1. then_do (buildCommonBundle b e Esm (join [cwd e, entry m])
                (dirname (join [cwd e, module m])) s1) (\<lambda>s.
     then_do (buildCommonBundle b e Cjs (join [cwd e, entry m])
                (dirname (join [cwd e, main m])) s) (\<lambda>s.
     then_do (iife_step b e m s) (\<lambda>s.
     buildDts b e (join [cwd e, entry m]) (dirname (join [cwd e, types m])) s)))"
  have rest: "adds (\<lambda>ev. \<not> is_removal ev) s1 (?rest s1)" for s1
    by (rule rest_steps_adds)
  have run: "build b e m s = then_do (clean_step b e base s) ?rest"
    by (rule build_unfold[OF assms])
  show ?thesis
  proof (cases "clean b \<and> fs_exists e (fs_location (cwd e) base)")
    case False
    then have "build b e m s = ?rest s"
      unfolding run by (auto simp add: clean_step_def)
    then show ?thesis using False adds_events[OF rest[of s]] by auto
  next
    case True
    let ?s1 = "emit (Call_rm base) s"
    from rest[of ?s1] obtain evs where
      evs: "trace (final (?rest ?s1)) = trace ?s1 @ evs" "list_all (\<lambda>ev. \<not> is_removal ev) evs"
      unfolding adds_def by blast
    show ?thesis
    proof (cases "fs_rm e (fs_location (cwd e) base)")
      case None
      then have "build b e m s = ?rest ?s1"
        unfolding run using True by (simp add: clean_step_def)
      then have "events_since s (build b e m s) = Call_rm base # evs"
        using evs(1) by (simp add: events_since_def emit_def)
      then show ?thesis using True evs(2) by blast
    next
      case (Some err)
      then have "build b e m s = Threw err ?s1"
        unfolding run using True by (simp add: clean_step_def)
      then have "events_since s (build b e m s) = [Call_rm base]"
        by (simp add: events_since_def emit_def)
      then show ?thesis using True by simp
    qed
  qed
qed

theorem cleanup_precedes_emission_witness:
  "output_root (cwd stale) sample_manifest = Inr ''w/dist''
   \<and> clean defaultOptions \<and> fs_exists stale (fs_location (cwd stale) ''w/dist'')
   \<and> (\<exists>rest. events_since fresh (build defaultOptions stale sample_manifest fresh)
               = Call_rm ''w/dist'' # rest
        \<and> list_all (\<lambda>ev. \<not> is_removal ev) rest)
   \<and> output_root (cwd calm) sample_manifest = Inr ''w/dist''
   \<and> \<not> (clean defaultOptions \<and> fs_exists calm (fs_location (cwd calm) ''w/dist''))
   \<and> list_all (\<lambda>ev. \<not> is_removal ev)
        (events_since fresh (build defaultOptions calm sample_manifest fresh))"
proof -
  have r: "output_root (cwd stale) sample_manifest = Inr ''w/dist''"
    by (simp add: path_defs sample_defs stale_def)
  have c: "clean defaultOptions \<and> fs_exists stale (fs_location (cwd stale) ''w/dist'')"
    by (simp add: fs_location_def sample_defs stale_def)
  have r': "output_root (cwd calm) sample_manifest = Inr ''w/dist''"
    by (simp add: path_defs sample_defs)
  have c': "\<not> (clean defaultOptions \<and> fs_exists calm (fs_location (cwd calm) ''w/dist''))"
    by (simp add: sample_defs)
  from cleanup_precedes_emission[OF r, of defaultOptions fresh]
    cleanup_precedes_emission[OF r', of defaultOptions fresh] r c r' c'
  show ?thesis by blast
qed

section \<open>The optional iife bundle\<close>

lemma buildCommonBundle_calls:
  "\<exists>evs. trace (final (buildCommonBundle b e fmt p d s)) =
      trace s @ Log_output (Bundle fmt) (Announce p d) # Call_bun_build fmt p d # evs"
proof (cases "success (bun_build e fmt p d)")
  case True
  then show ?thesis by (simp add: buildCommonBundle_def emit_def)
next
  case False
  let ?s2 = "emit (Call_bun_build fmt p d) (emit (Log_output (Bundle fmt) (Announce p d)) s)"
  from report_logs_adds[of ?s2 b "logs (bun_build e fmt p d)"]
  obtain evs where
    "trace (final (report_logs b (logs (bun_build e fmt p d)) ?s2)) = trace ?s2 @ evs"
    by (auto simp: adds_def)
  then show ?thesis using False
    by (simp add: buildCommonBundle_def emit_def)
qed

lemma report_logs_quiet:
  assumes "list_all (\<lambda>msg. level msg \<noteq> LvlError) ms"
  shows "report_logs b ms s =
     Returned (s\<lparr>trace := trace s
                 @ (if verbose b then replicate (length ms) Console_log_helpers else [])\<rparr>)"
proof -
  have "\<forall>m\<in>set ms. level m \<noteq> LvlError" using assms by (simp add: list_all_iff)
  from report_logs_append[OF this, of b "[]" s] show ?thesis by simp
qed

lemma buildCommonBundle_not_fatal:
  assumes "\<not> fatal (bun_build e fmt p d)"
  shows "\<exists>s'. buildCommonBundle b e fmt p d s = Returned s'"
proof (cases "success (bun_build e fmt p d)")
  case True
  then show ?thesis by (simp add: buildCommonBundle_def)
next
  case False
  with assms have "list_all (\<lambda>msg. level msg \<noteq> LvlError) (logs (bun_build e fmt p d))"
    by (simp add: fatal_def list_all_iff list_ex_iff)
  from report_logs_quiet[OF this] False show ?thesis
    by (simp add: buildCommonBundle_def Let_def)
qed

lemma then_do_extends:
  assumes "\<And>s'. adds P s' (g s')"
  shows "\<exists>evs. trace (final (then_do out g)) = trace (final out) @ evs"
proof (cases out)
  case (Returned s1)
  then show ?thesis using assms[of s1] by (auto simp: adds_def)
qed simp_all

lemma build_cdn_irrelevant:
  assumes "\<not> (truthy (cdn m) \<and> target b = Browser)"
  shows "build b e m s = build b e (m\<lparr>cdn := None\<rparr>) s"
proof -
  have skip: "iife_step b e m s' = Returned s'"
    "iife_step b e (m\<lparr>cdn := None\<rparr>) s' = Returned s'" for s'
    using assms by (auto simp: iife_step_def)
  obtain base where base: "output_root (cwd e) m = Inr base"
    using output_root_total by blast
  then have base': "output_root (cwd e) (m\<lparr>cdn := None\<rparr>) = Inr base"
    by (simp add: output_root_def)
  show ?thesis
    by (simp add: build_unfold[OF base] build_unfold[OF base'] skip)
qed

lemma no_iife_events:
  assumes "\<not> (truthy (cdn m) \<and> target b = Browser)"
  shows "list_all (\<lambda>ev. \<not> about (Bundle Iife) ev) (events_since s (build b e m s))"
proof -
  obtain base where base: "output_root (cwd e) m = Inr base"
    using output_root_total by blast
  have n1: "\<not> about (Bundle Iife) ev" if "is_removal ev" for ev
    using that by (cases ev) auto
  have n2: "\<not> about (Bundle Iife) ev" if "about (Bundle Esm) ev \<or> is_report ev" for ev
    using that by (cases ev) auto
  have n3: "\<not> about (Bundle Iife) ev" if "about (Bundle Cjs) ev \<or> is_report ev" for ev
    using that by (cases ev) auto
  have n4: "\<not> about (Bundle Iife) ev" if "about Dts ev \<or> is_report ev" for ev
    using that by (cases ev) auto
  have c: "adds (\<lambda>ev. \<not> about (Bundle Iife) ev) s (clean_step b e base s)"
    by (rule adds_mono[OF clean_step_adds]) (rule n1)
  have a1: "adds (\<lambda>ev. \<not> about (Bundle Iife) ev) s (buildCommonBundle b e Esm p d s)" for p d s
    by (rule adds_mono[OF buildCommonBundle_adds]) (rule n2)
  have a2: "adds (\<lambda>ev. \<not> about (Bundle Iife) ev) s (buildCommonBundle b e Cjs p d s)" for p d s
    by (rule adds_mono[OF buildCommonBundle_adds]) (rule n3)
  have i: "adds (\<lambda>ev. \<not> about (Bundle Iife) ev) s (iife_step b e m s)" for s
    using assms by (auto simp add: iife_step_def adds_refl)
  have t: "adds (\<lambda>ev. \<not> about (Bundle Iife) ev) s (buildDts b e p d s)" for p d s
    by (rule adds_mono[OF buildDts_adds]) (rule n4)
  have "adds (\<lambda>ev. \<not> about (Bundle Iife) ev) s (build b e m s)"
    unfolding build_unfold[OF base]
    by (rule adds_then_do[OF c], rule adds_then_do[OF a1], rule adds_then_do[OF a2],
        rule adds_then_do[OF i], rule t)
  then show ?thesis by (rule adds_events)
qed

lemma iife_performed:
  assumes "truthy (cdn m)" "target b = Browser" "cleanup_passes b e m"
    and "\<not> fatal (bun_build e Esm (join [cwd e, entry m]) (dirname (join [cwd e, module m])))"
    and "\<not> fatal (bun_build e Cjs (join [cwd e, entry m]) (dirname (join [cwd e, main m])))"
  shows "Call_bun_build Iife (join [cwd e, entry m]) (dirname (join [cwd e, the (cdn m)]))
           \<in> set (events_since s (build b e m s))"
proof -
  obtain base where base: "output_root (cwd e) m = Inr base"
    using output_root_total by blast
  let ?p = "join [cwd e, entry m]"
  obtain s1 where s1: "clean_step b e base s = Returned s1" "adds is_removal s (Returned s1)"
    using clean_step_passes[OF assms(3) base] by blast
  obtain s2 where s2: "buildCommonBundle b e Esm ?p (dirname (join [cwd e, module m])) s1 = Returned s2"
    using buildCommonBundle_not_fatal[OF assms(4)] by blast
  obtain s3 where s3: "buildCommonBundle b e Cjs ?p (dirname (join [cwd e, main m])) s2 = Returned s3"
    using buildCommonBundle_not_fatal[OF assms(5)] by blast
  let ?iife = "buildCommonBundle b e Iife ?p (dirname (join [cwd e, the (cdn m)])) s3"
  let ?dts = "buildDts b e ?p (dirname (join [cwd e, types m]))"
  have run: "build b e m s = then_do ?iife ?dts"
    using assms(1,2) by (simp add: build_unfold[OF base] s1 s2 s3 iife_step_def)
  obtain e1 where e1: "trace s1 = trace s @ e1"
    using s1(2) by (auto simp: adds_def)
  obtain e2 where e2: "trace s2 = trace s1 @ e2"
    using buildCommonBundle_adds[of Esm s1 b e ?p "dirname (join [cwd e, module m])"]
    unfolding s2 by (auto simp: adds_def)
  obtain e3 where e3: "trace s3 = trace s2 @ e3"
    using buildCommonBundle_adds[of Cjs s2 b e ?p "dirname (join [cwd e, main m])"]
    unfolding s3 by (auto simp: adds_def)
  obtain e4 where e4: "trace (final ?iife) = trace s3 @
      Log_output (Bundle Iife) (Announce ?p (dirname (join [cwd e, the (cdn m)])))
      # Call_bun_build Iife ?p (dirname (join [cwd e, the (cdn m)])) # e4"
    using buildCommonBundle_calls by blast
  obtain e5 where e5: "trace (final (then_do ?iife ?dts)) = trace (final ?iife) @ e5"
    using then_do_extends[of _ ?dts ?iife, OF buildDts_adds] by blast
  show ?thesis
    unfolding run events_since_def e5 e4 e3 e2 e1 by simp
qed

text \<open>
  C5. When the manifest gives no (non-empty) \<open>cdn\<close> path or the target is not
  \<open>browser\<close>, no build adds any event of an iife emission (no call of the
  bundler, no log line), and the build is the very build of the manifest
  without its \<open>cdn\<close> field, so the skipped step causes no error. In every build
  that reaches the step (the cleanup passes and neither the esm nor the cjs
  emission met an error-severity diagnostic) an iife emission is performed if
  and only if the manifest gives a \<open>cdn\<close> path and the target is \<open>browser\<close>, and
  then the bundler is called for the iife format on the directory of the
  resolved \<open>cdn\<close> path.
\<close>

theorem iife_gate:
  "(\<not> (truthy (cdn m) \<and> target b = Browser) \<longrightarrow>
      list_all (\<lambda>ev. \<not> about (Bundle Iife) ev) (events_since s (build b e m s))
      \<and> build b e m s = build b e (m\<lparr>cdn := None\<rparr>) s)
   \<and> (cleanup_passes b e m
      \<and> \<not> fatal (bun_build e Esm (join [cwd e, entry m]) (dirname (join [cwd e, module m])))
      \<and> \<not> fatal (bun_build e Cjs (join [cwd e, entry m]) (dirname (join [cwd e, main m])))
      \<longrightarrow>
        (list_ex (about (Bundle Iife)) (events_since s (build b e m s))
           \<longleftrightarrow> truthy (cdn m) \<and> target b = Browser)
        \<and> (truthy (cdn m) \<and> target b = Browser \<longrightarrow>
             Call_bun_build Iife (join [cwd e, entry m]) (dirname (join [cwd e, the (cdn m)]))
               \<in> set (events_since s (build b e m s))))"
proof (intro conjI impI)
  assume skip: "\<not> (truthy (cdn m) \<and> target b = Browser)"
  show "list_all (\<lambda>ev. \<not> about (Bundle Iife) ev) (events_since s (build b e m s))"
    by (rule no_iife_events[OF skip])
  show "build b e m s = build b e (m\<lparr>cdn := None\<rparr>) s"
    by (rule build_cdn_irrelevant[OF skip])
next
  assume reach: "cleanup_passes b e m
      \<and> \<not> fatal (bun_build e Esm (join [cwd e, entry m]) (dirname (join [cwd e, module m])))
      \<and> \<not> fatal (bun_build e Cjs (join [cwd e, entry m]) (dirname (join [cwd e, main m])))"
  let ?evs = "events_since s (build b e m s)"
  let ?call = "Call_bun_build Iife (join [cwd e, entry m]) (dirname (join [cwd e, the (cdn m)]))"
  have performed: "?call \<in> set ?evs" if "truthy (cdn m) \<and> target b = Browser"
    using iife_performed[of m b e s] that reach by simp
  show "list_ex (about (Bundle Iife)) ?evs \<longleftrightarrow> truthy (cdn m) \<and> target b = Browser"
  proof
    assume ex: "list_ex (about (Bundle Iife)) ?evs"
    show "truthy (cdn m) \<and> target b = Browser"
    proof (rule ccontr)
      assume "\<not> (truthy (cdn m) \<and> target b = Browser)"
      from no_iife_events[OF this, of s e] ex show False
        by (auto simp: list_all_iff list_ex_iff)
    qed
  next
    assume "truthy (cdn m) \<and> target b = Browser"
    from performed[OF this] have "\<exists>ev\<in>set ?evs. about (Bundle Iife) ev"
      by (intro bexI[where x="?call"]) simp_all
    then show "list_ex (about (Bundle Iife)) ?evs" by (simp add: list_ex_iff)
  qed
  show "?call \<in> set ?evs" if "truthy (cdn m) \<and> target b = Browser"
    using performed[OF that] .
qed

theorem iife_gate_witness:
  "\<not> (truthy (cdn cdn_manifest) \<and> target defaultOptions = Browser)
   \<and> list_all (\<lambda>ev. \<not> about (Bundle Iife) ev)
        (events_since fresh (build defaultOptions calm cdn_manifest fresh))
   \<and> build defaultOptions calm cdn_manifest fresh
       = build defaultOptions calm (cdn_manifest\<lparr>cdn := None\<rparr>) fresh
   \<and> truthy (cdn cdn_manifest) \<and> target browser_options = Browser
   \<and> cleanup_passes browser_options calm cdn_manifest
   \<and> \<not> fatal (bun_build calm Esm (join [cwd calm, entry cdn_manifest])
               (dirname (join [cwd calm, module cdn_manifest])))
   \<and> \<not> fatal (bun_build calm Cjs (join [cwd calm, entry cdn_manifest])
               (dirname (join [cwd calm, main cdn_manifest])))
   \<and> list_ex (about (Bundle Iife))
        (events_since fresh (build browser_options calm cdn_manifest fresh))
   \<and> Call_bun_build Iife ''/w/src/index.ts'' ''/w/dist/cdn''
        \<in> set (events_since fresh (build browser_options calm cdn_manifest fresh))"
proof -
  have skip: "\<not> (truthy (cdn cdn_manifest) \<and> target defaultOptions = Browser)"
    by (simp add: sample_defs cdn_manifest_def browser_options_def)
  have go: "truthy (cdn cdn_manifest) \<and> target browser_options = Browser"
    by (simp add: sample_defs cdn_manifest_def browser_options_def)
  have reach: "cleanup_passes browser_options calm cdn_manifest
     \<and> \<not> fatal (bun_build calm Esm (join [cwd calm, entry cdn_manifest])
               (dirname (join [cwd calm, module cdn_manifest])))
     \<and> \<not> fatal (bun_build calm Cjs (join [cwd calm, entry cdn_manifest])
               (dirname (join [cwd calm, main cdn_manifest])))"
    by (simp add: cleanup_passes_def fatal_def path_defs sample_defs cdn_manifest_def
        browser_options_def)
  have paths: "join [cwd calm, entry cdn_manifest] = ''/w/src/index.ts''"
    "dirname (join [cwd calm, the (cdn cdn_manifest)]) = ''/w/dist/cdn''"
    by (simp_all add: path_defs sample_defs cdn_manifest_def browser_options_def)
  note t1 = iife_gate[where m=cdn_manifest and b=defaultOptions and s=fresh and e=calm,
      THEN conjunct1, rule_format, OF skip]
  note t2 = iife_gate[where m=cdn_manifest and b=browser_options and s=fresh and e=calm,
      THEN conjunct2, rule_format, OF reach]
  from t2 go have ex: "list_ex (about (Bundle Iife))
        (events_since fresh (build browser_options calm cdn_manifest fresh))"
    and call: "Call_bun_build Iife ''/w/src/index.ts'' ''/w/dist/cdn''
        \<in> set (events_since fresh (build browser_options calm cdn_manifest fresh))"
    unfolding paths by blast+
  from t1 skip go reach ex call show ?thesis by (intro conjI) blast+
qed

section \<open>The message-reporting policy\<close>

text \<open>
  What the second case of \<open>reportOutput\<close> prints is the \<open>log\<close> helper object
  (\<open>console.log(log)\<close>), not the diagnostic: the outcome does not depend on the
  text of the message. The comment in that case speaks of emitting the other
  messages, so this is a defect of the code; the statement of C3 below says
  nothing about the content of that output.
\<close>

lemma verbose_prints_helper_object:
  assumes "verbose b" and "level msg \<noteq> LvlError"
  shows "reportOutput b msg s = Returned (emit Console_log_helpers s)"
    and "reportOutput b (msg\<lparr>message := other\<rparr>) s = reportOutput b msg s"
  using assms by (simp_all add: reportOutput_def)

lemma report_logs_noise:
  assumes "\<forall>m\<in>set pre. level m \<noteq> LvlError"
  shows "\<exists>noise. report_logs b (pre @ rest) s = report_logs b rest (s\<lparr>trace := trace s @ noise\<rparr>)
     \<and> length noise \<le> length pre \<and> list_all (\<lambda>ev. \<not> is_error_entry ev) noise
     \<and> (\<not> verbose b \<longrightarrow> noise = [])"
proof -
  let ?noise = "if verbose b then replicate (length pre) Console_log_helpers else []"
  have "report_logs b (pre @ rest) s = report_logs b rest (s\<lparr>trace := trace s @ ?noise\<rparr>)"
    by (rule report_logs_append[OF assms])
  moreover have "length ?noise \<le> length pre" by simp
  moreover have "list_all (\<lambda>ev. \<not> is_error_entry ev) ?noise" by (simp add: list_all_iff)
  moreover have "\<not> verbose b \<longrightarrow> ?noise = []" by simp
  ultimately show ?thesis by blast
qed

text \<open>
  C3, as the code has it. A successful bundler invocation logs the built output
  and hands none of its diagnostics to the policy. Of a failed invocation the
  diagnostics are taken in order. The first error-severity diagnostic is logged
  with its message whatever \<open>verbose\<close> says, the abort signal is raised and the
  process exits with status 1; the diagnostics after it are never looked at,
  and no other error entry is written. The non-error diagnostics before it
  never end the process, and with \<open>verbose\<close> disabled they leave no output at
  all. A failed invocation without an error-severity diagnostic returns.
\<close>

theorem reporting_policy:
  "(success (bun_build e fmt p d) \<longrightarrow>
      buildCommonBundle b e fmt p d s =
        Returned (s\<lparr>trace := trace s @
          [Log_output (Bundle fmt) (Announce p d), Call_bun_build fmt p d,
           Log_output (Bundle fmt) (Built d)]\<rparr>))
   \<and> (\<not> success (bun_build e fmt p d) \<and> logs (bun_build e fmt p d) = pre @ err # post
       \<and> list_all (\<lambda>msg. level msg \<noteq> LvlError) pre \<and> level err = LvlError \<longrightarrow>
      (\<exists>noise. buildCommonBundle b e fmt p d s =
          Exited 1 (s\<lparr>aborted := True, trace := trace s @
            [Log_output (Bundle fmt) (Announce p d), Call_bun_build fmt p d]
            @ noise @ [Log_error (message err), Abort]\<rparr>)
        \<and> length noise \<le> length pre \<and> list_all (\<lambda>ev. \<not> is_error_entry ev) noise
        \<and> (\<not> verbose b \<longrightarrow> noise = [])))
   \<and> (\<not> success (bun_build e fmt p d)
       \<and> list_all (\<lambda>msg. level msg \<noteq> LvlError) (logs (bun_build e fmt p d)) \<longrightarrow>
      (\<exists>noise. buildCommonBundle b e fmt p d s =
          Returned (s\<lparr>trace := trace s @
            [Log_output (Bundle fmt) (Announce p d), Call_bun_build fmt p d] @ noise\<rparr>)
        \<and> length noise \<le> length (logs (bun_build e fmt p d))
        \<and> list_all (\<lambda>ev. \<not> is_error_entry ev) noise
        \<and> (\<not> verbose b \<longrightarrow> noise = [])))"
proof (intro conjI impI)
  assume "success (bun_build e fmt p d)"
  then show "buildCommonBundle b e fmt p d s =
        Returned (s\<lparr>trace := trace s @
          [Log_output (Bundle fmt) (Announce p d), Call_bun_build fmt p d,
           Log_output (Bundle fmt) (Built d)]\<rparr>)"
    by (simp add: buildCommonBundle_def emit_def)
next
  assume a: "\<not> success (bun_build e fmt p d) \<and> logs (bun_build e fmt p d) = pre @ err # post
       \<and> list_all (\<lambda>msg. level msg \<noteq> LvlError) pre \<and> level err = LvlError"
  then have pre: "\<forall>m\<in>set pre. level m \<noteq> LvlError" by (simp add: list_all_iff)
  let ?s2 = "s\<lparr>trace := trace s @
      [Log_output (Bundle fmt) (Announce p d), Call_bun_build fmt p d]\<rparr>"
  from report_logs_noise[OF pre, of b "err # post" ?s2] obtain noise where
    n: "report_logs b (pre @ err # post) ?s2
          = report_logs b (err # post) (?s2\<lparr>trace := trace ?s2 @ noise\<rparr>)"
      "length noise \<le> length pre" "list_all (\<lambda>ev. \<not> is_error_entry ev) noise"
      "\<not> verbose b \<longrightarrow> noise = []"
    by blast
  have "buildCommonBundle b e fmt p d s = report_logs b (pre @ err # post) ?s2"
    using a by (simp add: buildCommonBundle_def Let_def emit_def)
  also have "\<dots> = Exited 1 (s\<lparr>aborted := True, trace := trace s @
            [Log_output (Bundle fmt) (Announce p d), Call_bun_build fmt p d]
            @ noise @ [Log_error (message err), Abort]\<rparr>)"
    unfolding n(1) using a by (simp add: reportOutput_def terminate_def emit_def)
  finally show "\<exists>noise. buildCommonBundle b e fmt p d s =
          Exited 1 (s\<lparr>aborted := True, trace := trace s @
            [Log_output (Bundle fmt) (Announce p d), Call_bun_build fmt p d]
            @ noise @ [Log_error (message err), Abort]\<rparr>)
        \<and> length noise \<le> length pre \<and> list_all (\<lambda>ev. \<not> is_error_entry ev) noise
        \<and> (\<not> verbose b \<longrightarrow> noise = [])"
    using n(2,3,4) by (intro exI[where x=noise] conjI)
next
  assume a: "\<not> success (bun_build e fmt p d)
       \<and> list_all (\<lambda>msg. level msg \<noteq> LvlError) (logs (bun_build e fmt p d))"
  let ?ms = "logs (bun_build e fmt p d)"
  from a have q: "\<forall>m\<in>set ?ms. level m \<noteq> LvlError" by (simp add: list_all_iff)
  let ?s2 = "s\<lparr>trace := trace s @
      [Log_output (Bundle fmt) (Announce p d), Call_bun_build fmt p d]\<rparr>"
  from report_logs_noise[OF q, of b "[]" ?s2] obtain noise where
    n: "report_logs b (?ms @ []) ?s2 = report_logs b [] (?s2\<lparr>trace := trace ?s2 @ noise\<rparr>)"
      "length noise \<le> length ?ms" "list_all (\<lambda>ev. \<not> is_error_entry ev) noise"
      "\<not> verbose b \<longrightarrow> noise = []"
    by blast
  have "buildCommonBundle b e fmt p d s = report_logs b (?ms @ []) ?s2"
    using a by (simp add: buildCommonBundle_def Let_def emit_def)
  also have "\<dots> = Returned (s\<lparr>trace := trace s @
            [Log_output (Bundle fmt) (Announce p d), Call_bun_build fmt p d] @ noise\<rparr>)"
    unfolding n(1) by simp
  finally show "\<exists>noise. buildCommonBundle b e fmt p d s =
          Returned (s\<lparr>trace := trace s @
            [Log_output (Bundle fmt) (Announce p d), Call_bun_build fmt p d] @ noise\<rparr>)
        \<and> length noise \<le> length ?ms
        \<and> list_all (\<lambda>ev. \<not> is_error_entry ev) noise
        \<and> (\<not> verbose b \<longrightarrow> noise = [])"
    using n(2,3,4) by (intro exI[where x=noise] conjI)
qed

text \<open>
  The claim as stated fails on the code in two places. It extends the policy to
  successful invocations, where the code reports nothing: with \<open>verbose\<close>
  enabled, the warning of a successful invocation leaves no trace. And it
  speaks of every diagnostic, where the code stops at the first error: of two
  errors of a failed invocation only the first is logged.
\<close>

theorem reporting_policy_counterexample:
  "verbose verbose_options
   \<and> success (bun_build warning_on_success Esm ''/w/src/index.ts'' ''/w/dist/esm'')
   \<and> logs (bun_build warning_on_success Esm ''/w/src/index.ts'' ''/w/dist/esm'')
       = [\<lparr>message = ''unused import'', level = LvlWarning\<rparr>]
   \<and> buildCommonBundle verbose_options warning_on_success Esm
        ''/w/src/index.ts'' ''/w/dist/esm'' fresh
       = Returned \<lparr>aborted = False, trace =
           [Log_output (Bundle Esm) (Announce ''/w/src/index.ts'' ''/w/dist/esm''),
            Call_bun_build Esm ''/w/src/index.ts'' ''/w/dist/esm'',
            Log_output (Bundle Esm) (Built ''/w/dist/esm'')]\<rparr>
   \<and> logs (bun_build two_errors Esm ''/w/src/index.ts'' ''/w/dist/esm'')
       = [\<lparr>message = ''could not resolve'', level = LvlError\<rparr>,
          \<lparr>message = ''unexpected token'', level = LvlError\<rparr>]
   \<and> buildCommonBundle defaultOptions two_errors Esm ''/w/src/index.ts'' ''/w/dist/esm'' fresh
       = Exited 1 \<lparr>aborted = True, trace =
           [Log_output (Bundle Esm) (Announce ''/w/src/index.ts'' ''/w/dist/esm''),
            Call_bun_build Esm ''/w/src/index.ts'' ''/w/dist/esm'',
            Log_error ''could not resolve'', Abort]\<rparr>"
  by (simp add: run_defs sample_defs warning_on_success_def verbose_options_def two_errors_def)

theorem reporting_policy_witness:
  "success (bun_build calm Esm ''/w/src/index.ts'' ''/w/dist/esm'')
   \<and> buildCommonBundle defaultOptions calm Esm ''/w/src/index.ts'' ''/w/dist/esm'' fresh =
       Returned \<lparr>aborted = False, trace =
         [Log_output (Bundle Esm) (Announce ''/w/src/index.ts'' ''/w/dist/esm''),
          Call_bun_build Esm ''/w/src/index.ts'' ''/w/dist/esm'',
          Log_output (Bundle Esm) (Built ''/w/dist/esm'')]\<rparr>
   \<and> \<not> success (bun_build failing_esm Esm ''/w/src/index.ts'' ''/w/dist/esm'')
   \<and> logs (bun_build failing_esm Esm ''/w/src/index.ts'' ''/w/dist/esm'') =
       [\<lparr>message = ''unused import'', level = LvlWarning\<rparr>]
       @ \<lparr>message = ''could not resolve'', level = LvlError\<rparr> # []
   \<and> \<not> verbose defaultOptions
   \<and> buildCommonBundle defaultOptions failing_esm Esm ''/w/src/index.ts'' ''/w/dist/esm'' fresh =
       Exited 1 \<lparr>aborted = True, trace =
         [Log_output (Bundle Esm) (Announce ''/w/src/index.ts'' ''/w/dist/esm''),
          Call_bun_build Esm ''/w/src/index.ts'' ''/w/dist/esm'',
          Log_error ''could not resolve'', Abort]\<rparr>
   \<and> \<not> success (bun_build warnings_only Esm ''/w/src/index.ts'' ''/w/dist/esm'')
   \<and> list_all (\<lambda>msg. level msg \<noteq> LvlError)
        (logs (bun_build warnings_only Esm ''/w/src/index.ts'' ''/w/dist/esm''))
   \<and> buildCommonBundle defaultOptions warnings_only Esm ''/w/src/index.ts'' ''/w/dist/esm'' fresh =
       Returned \<lparr>aborted = False, trace =
         [Log_output (Bundle Esm) (Announce ''/w/src/index.ts'' ''/w/dist/esm''),
          Call_bun_build Esm ''/w/src/index.ts'' ''/w/dist/esm'']\<rparr>"
proof -
  let ?p = "''/w/src/index.ts''" and ?d = "''/w/dist/esm''"
  let ?w = "\<lparr>message = ''unused import'', level = LvlWarning\<rparr>"
  let ?x = "\<lparr>message = ''could not resolve'', level = LvlError\<rparr>"
  have q: "\<not> verbose defaultOptions" by (simp add: defaultOptions_def)
  have h1: "success (bun_build calm Esm ?p ?d)"
    by (simp add: sample_defs)
  have h2: "\<not> success (bun_build failing_esm Esm ?p ?d)
      \<and> logs (bun_build failing_esm Esm ?p ?d) = [?w] @ ?x # []
      \<and> list_all (\<lambda>msg. level msg \<noteq> LvlError) [?w] \<and> level ?x = LvlError"
    by (simp add: sample_defs failing_esm_def)
  have h3: "\<not> success (bun_build warnings_only Esm ?p ?d)
      \<and> list_all (\<lambda>msg. level msg \<noteq> LvlError) (logs (bun_build warnings_only Esm ?p ?d))"
    by (simp add: sample_defs warnings_only_def)
  note r1 = reporting_policy[where e=calm and fmt=Esm and p="?p" and d="?d"
      and b=defaultOptions and s=fresh, THEN conjunct1, rule_format, OF h1]
  note r2 = reporting_policy[where e=failing_esm and fmt=Esm and p="?p" and d="?d"
      and pre="[?w]" and err="?x" and post="[]" and b=defaultOptions and s=fresh,
      THEN conjunct2, THEN conjunct1, rule_format, OF h2]
  note r3 = reporting_policy[where e=warnings_only and fmt=Esm and p="?p" and d="?d"
      and b=defaultOptions and s=fresh,
      THEN conjunct2, THEN conjunct2, rule_format, OF h3]
  from r1 have c1: "buildCommonBundle defaultOptions calm Esm ?p ?d fresh =
       Returned \<lparr>aborted = False, trace =
         [Log_output (Bundle Esm) (Announce ?p ?d), Call_bun_build Esm ?p ?d,
          Log_output (Bundle Esm) (Built ?d)]\<rparr>"
    by (simp add: fresh_def)
  from r2 q have c2: "buildCommonBundle defaultOptions failing_esm Esm ?p ?d fresh =
       Exited 1 \<lparr>aborted = True, trace =
         [Log_output (Bundle Esm) (Announce ?p ?d), Call_bun_build Esm ?p ?d,
          Log_error ''could not resolve'', Abort]\<rparr>"
    by (auto simp add: fresh_def)
  from r3 q have c3: "buildCommonBundle defaultOptions warnings_only Esm ?p ?d fresh =
       Returned \<lparr>aborted = False, trace =
         [Log_output (Bundle Esm) (Announce ?p ?d), Call_bun_build Esm ?p ?d]\<rparr>"
    by (auto simp add: fresh_def)
  from h1 h2 h3 q c1 c2 c3 show ?thesis by (intro conjI) simp_all
qed

section \<open>The watcher's filter\<close>

lemma startsWith_append: "startsWith (p @ rest) p"
  by (induction p) simp_all

lemma startsWith_prefix: "startsWith s (p @ q) \<Longrightarrow> startsWith s p"
proof (induction p arbitrary: s)
  case Nil
  then show ?case by simp
next
  case (Cons c p)
  then show ?case by (cases s) auto
qed

lemma under_root_ignored: "under_root root name \<Longrightarrow> ignored root (Some name)"
  unfolding under_root_def ignored_def
  using startsWith_append[of root "[]"] startsWith_prefix[of name root "[sep]"] by auto

lemma watch_loop_ignored:
  "ignored root name \<Longrightarrow>
   watch_loop b m root (Change name e # rest) s = watch_loop b m root rest s"
  by simp

lemma watch_loop_rebuilds:
  "\<not> ignored root name \<Longrightarrow>
   watch_loop b m root (Change name e # rest) s =
     then_do (build b e m (emit Log_neutral (emit Console_clear s))) (watch_loop b m root rest)"
  by simp

lemma sample_watch_root:
  "basepath [main sample_manifest, module sample_manifest, types sample_manifest] = Inr ''dist''"
  by (simp add: path_defs sample_defs)

text \<open>
  C7. The claim: a change under the output root never triggers a rebuild, and
  every change outside it triggers exactly one. A name that is the root string
  or continues it after a separator is discarded (\<open>under_root_ignored\<close>,
  \<open>watch_loop_ignored\<close>). The second half does not hold: for the sample
  manifest the watcher's output root is \<open>dist\<close>, the file \<open>dist.config.ts\<close> is
  not under it, and yet its change is dropped: the watcher returns in the state
  it started in, without a rebuild.
\<close>

theorem watcher_drops_outside_change:
  "basepath [main sample_manifest, module sample_manifest, types sample_manifest] = Inr ''dist''
   \<and> \<not> under_root ''dist'' ''dist.config.ts''
   \<and> watchFiles b sample_manifest [Change (Some ''dist.config.ts'') e] s = Returned s"
  by (simp add: sample_watch_root watchFiles_def ignored_def under_root_def sep_def)

text \<open>
  C10. The filter is \<open>startsWith\<close> on the name, not a test on path segments:
  with output root \<open>dist\<close>, the changed file \<open>dist2/a.ts\<close> is outside the output
  root, its name begins with the string \<open>dist\<close>, and the notification is
  discarded: whatever the builder, the surroundings and the state, the watcher
  returns in the state it started in, so no rebuild was triggered.
\<close>

theorem prefix_filter_discards_sibling:
  "basepath [main sample_manifest, module sample_manifest, types sample_manifest] = Inr ''dist''
   \<and> \<not> under_root ''dist'' ''dist2/a.ts''
   \<and> startsWith ''dist2/a.ts'' ''dist''
   \<and> watchFiles b sample_manifest [Change (Some ''dist2/a.ts'') e] s = Returned s"
  by (simp add: sample_watch_root watchFiles_def ignored_def under_root_def sep_def)


section \<open>Order of the paths given to \<open>basepath\<close>\<close>

subsection \<open>Sets and their intersection\<close>

lemma foldl_set_add:
  "distinct acc \<Longrightarrow> distinct (foldl set_add acc xs) \<and> set (foldl set_add acc xs) = set acc \<union> set xs"
  by (induction xs arbitrary: acc) (auto simp: set_add_def)

lemma set_new_Set: "set (new_Set xs) = set xs"
  using foldl_set_add[of "[]" xs] by (simp add: new_Set_def)

lemma distinct_new_Set: "distinct (new_Set xs)"
  using foldl_set_add[of "[]" xs] by (simp add: new_Set_def)




lemma set_intersection: "set (intersection a c) = set a \<inter> set c"
  by (auto simp: intersection_def set_new_Set)

lemma distinct_intersection: "distinct (intersection a c)"
  by (simp add: intersection_def distinct_new_Set)

lemma set_foldl_intersection:
  "set (foldl intersection a cs) = set a \<inter> (\<Inter>c\<in>set cs. set c)"
  by (induction cs arbitrary: a) (auto simp: set_intersection)

lemma distinct_foldl_intersection:
  "distinct a \<Longrightarrow> distinct (foldl intersection a cs)"
  by (induction cs arbitrary: a) (auto simp: distinct_intersection)




subsection \<open>The segments that survive\<close>

lemma common_segments_Cons:
  "common_segments (p # ps) =
     Inr (foldl intersection (new_Set (split sep p)) (map (\<lambda>path. new_Set (split sep path)) ps))"
  by (simp add: common_segments_def reduce_def)

lemma set_common_segments:
  assumes "common_segments ps = Inr a"
  shows "set a = {seg. shared ps seg}" and "distinct a"
proof -
  from assms obtain p ps' where ps: "ps = p # ps'"
    by (cases ps) (auto simp: common_segments_def reduce_def)
  from assms have a: "a = foldl intersection (new_Set (split sep p))
       (map (\<lambda>path. new_Set (split sep path)) ps')"
    unfolding ps common_segments_Cons by simp
  show "set a = {seg. shared ps seg}"
    unfolding a ps by (auto simp: set_foldl_intersection set_new_Set shared_def list_all_iff)
  show "distinct a"
    unfolding a by (simp add: distinct_foldl_intersection distinct_new_Set)
qed









section \<open>The root segment\<close>

lemma startsWith_slash: "startsWith p ''/'' \<longleftrightarrow> p \<noteq> [] \<and> hd p = CHR ''/''"
  by (cases p) auto

lemma split_not_Nil: "split c s \<noteq> []"
  by (induction s) (auto split: list.splits)

lemma split_free: "x \<in> set (split c s) \<Longrightarrow> c \<notin> set x"
proof (induction s arbitrary: x)
  case Nil
  then show ?case by simp
next
  case (Cons a s)
  then show ?case by (auto split: if_splits list.splits)
qed

lemma split_leading: "split c (c # s) = [] # split c s"
  by simp

lemma normalize_step_keeps:
  assumes "\<forall>x\<in>set res. x \<noteq> [] \<and> CHR ''/'' \<notin> set x" and "CHR ''/'' \<notin> set seg"
  shows "\<forall>x\<in>set (normalize_step up res seg). x \<noteq> [] \<and> CHR ''/'' \<notin> set x"
  using assms by (auto simp: normalize_step_def dest: in_set_butlastD)

lemma foldl_normalize_step_keeps:
  assumes "\<forall>x\<in>set res. x \<noteq> [] \<and> CHR ''/'' \<notin> set x"
    and "\<forall>seg\<in>set segs. CHR ''/'' \<notin> set seg"
  shows "\<forall>x\<in>set (foldl (normalize_step up) res segs). x \<noteq> [] \<and> CHR ''/'' \<notin> set x"
  using assms
proof (induction segs arbitrary: res)
  case Nil
  then show ?case by simp
next
  case (Cons seg segs)
  have step: "\<forall>x\<in>set (normalize_step up res seg). x \<noteq> [] \<and> CHR ''/'' \<notin> set x"
    using Cons.prems by (intro normalize_step_keeps) simp_all
  have rest: "\<forall>seg\<in>set segs. CHR ''/'' \<notin> set seg"
    using Cons.prems(2) by simp
  from Cons.IH[OF step rest] show ?case by simp
qed

lemma hd_glue:
  assumes "xs \<noteq> []" "hd xs \<noteq> []"
  shows "glue s xs \<noteq> [] \<and> hd (glue s xs) = hd (hd xs)"
proof (cases xs)
  case Nil
  with assms show ?thesis by simp
next
  case (Cons x rest)
  with assms show ?thesis by (cases rest) auto
qed

lemma glue_relative:
  assumes "\<forall>x\<in>set xs. x \<noteq> [] \<and> CHR ''/'' \<notin> set x"
  shows "\<not> startsWith (glue s xs) ''/''"
proof (cases xs)
  case Nil
  then show ?thesis by simp
next
  case (Cons x rest)
  then have "x \<noteq> []" "CHR ''/'' \<notin> set x" using assms by auto
  then have "hd x \<noteq> CHR ''/''" by (cases x) auto
  moreover have "hd (glue s xs) = hd (hd xs)" using hd_glue[of xs s] Cons \<open>x \<noteq> []\<close> by simp
  ultimately show ?thesis using Cons by (simp add: startsWith_slash)
qed

lemma normalize_relative:
  assumes "\<not> startsWith path ''/''"
  shows "\<not> startsWith (normalize path) ''/''"
proof (cases "path = []")
  case True
  then show ?thesis by (simp add: normalize_def)
next
  case False
  with assms have rel: "hd path \<noteq> CHR ''/''" by (simp add: startsWith_slash)
  let ?segs = "foldl (normalize_step True) [] (split CHR ''/'' path)"
  have "\<forall>x\<in>set ?segs. x \<noteq> [] \<and> CHR ''/'' \<notin> set x"
    by (rule foldl_normalize_step_keeps) (auto dest: split_free)
  then have g: "\<not> startsWith (glue ''/'' ?segs) ''/''" by (rule glue_relative)
  have "\<not> startsWith (glue ''/'' ?segs @ rest) ''/''" if "glue ''/'' ?segs \<noteq> []" for rest
    using g that by (simp add: startsWith_slash)
  then show ?thesis using False rel
    by (auto simp: normalize_def normalizeString_def Let_def)
qed

lemma join_relative:
  assumes "\<forall>x\<in>set segs. CHR ''/'' \<notin> set x"
  shows "\<not> startsWith (join segs) ''/''"
proof -
  let ?joined = "filter (\<lambda>arg. arg \<noteq> []) segs"
  have "\<forall>x\<in>set ?joined. x \<noteq> [] \<and> CHR ''/'' \<notin> set x" using assms by simp
  then have "\<not> startsWith (glue ''/'' ?joined) ''/''" by (rule glue_relative)
  then have "\<not> startsWith (normalize (glue ''/'' ?joined)) ''/''" by (rule normalize_relative)
  then show ?thesis by (simp add: join_def Let_def)
qed

lemma common_segments_free:
  assumes "common_segments ps = Inr segs"
  shows "\<forall>x\<in>set segs. CHR ''/'' \<notin> set x"
proof
  fix x assume "x \<in> set segs"
  then have sh: "shared ps x" using set_common_segments(1)[OF assms] by simp
  from assms obtain p ps' where "ps = p # ps'"
    by (cases ps) (auto simp: common_segments_def reduce_def)
  with sh have "x \<in> set (split sep p)" by (simp add: shared_def)
  then show "CHR ''/'' \<notin> set x" using split_free[of x sep p] by (simp add: sep_def)
qed

lemma basepath_relative:
  assumes "basepath ps = Inr r"
  shows "\<not> startsWith r ''/''"
proof -
  from assms obtain segs where segs: "common_segments ps = Inr segs" "r = join segs"
    by (auto simp: basepath_def split: sum.splits)
  show ?thesis unfolding segs(2) by (rule join_relative[OF common_segments_free[OF segs(1)]])
qed

lemma normalize_absolute:
  assumes "startsWith path ''/''"
  shows "startsWith (normalize path) ''/''"
  using assms by (auto simp: normalize_def Let_def startsWith_slash)

lemma join_absolute:
  assumes "startsWith root ''/''"
  shows "startsWith (join [root, x]) ''/''"
proof -
  from assms have "root \<noteq> []" by (simp add: startsWith_slash)
  then have "startsWith (glue ''/'' (filter (\<lambda>arg. arg \<noteq> []) [root, x])) ''/''"
    using assms by (cases root) auto
  then show ?thesis using \<open>root \<noteq> []\<close>
    by (simp add: join_def Let_def normalize_absolute del: glue.simps)
qed

lemma dirname_rooted:
  "dirname (CHR ''/'' # rest) =
     (let scanned = dropWhile (\<lambda>c. c \<noteq> CHR ''/'')
                      (dropWhile (\<lambda>c. c = CHR ''/'') (rev rest))
      in if scanned = [] then ''/'' else if length scanned = 1 then ''//''
         else take (length scanned) (CHR ''/'' # rest))"
  unfolding dirname_def Let_def
  by (simp only: list.sel list.simps if_False simp_thms if_True)

lemma dirname_absolute:
  assumes "startsWith path ''/''"
  shows "startsWith (dirname path) ''/''"
proof -
  from assms obtain rest where p: "path = CHR ''/'' # rest" by (cases path) auto
  define scanned where
    "scanned = dropWhile (\<lambda>c. c \<noteq> CHR ''/'') (dropWhile (\<lambda>c. c = CHR ''/'') (rev rest))"
  have d: "dirname path =
     (if scanned = [] then ''/'' else if length scanned = 1 then ''//''
      else take (length scanned) path)"
    unfolding p dirname_rooted scanned_def Let_def by (rule refl)
  show ?thesis
  proof (cases scanned)
    case Nil
    then show ?thesis unfolding d by simp
  next
    case (Cons c cs)
    then have "take (length scanned) path = CHR ''/'' # take (length cs) rest"
      unfolding p by simp
    then show ?thesis unfolding d using Cons by simp
  qed
qed

lemma root_segment_shared:
  assumes "ps \<noteq> []" "\<forall>p\<in>set ps. startsWith p ''/''"
  shows "\<exists>segs r. common_segments ps = Inr segs \<and> [] \<in> set segs
           \<and> basepath ps = Inr r \<and> \<not> startsWith r ''/''"
proof -
  from assms(1) obtain p ps' where ps: "ps = p # ps'" by (cases ps) auto
  obtain segs where segs: "common_segments ps = Inr segs"
    unfolding ps common_segments_Cons by simp
  have "[] \<in> set (split sep q)" if "q \<in> set ps" for q
  proof -
    from assms(2) that obtain rest where "q = CHR ''/'' # rest"
      by (cases q) auto
    then show ?thesis by (simp add: sep_def)
  qed
  then have "shared ps []" by (simp add: shared_def list_all_iff)
  then have root: "[] \<in> set segs" using set_common_segments(1)[OF segs] by simp
  have r: "basepath ps = Inr (join segs)" by (simp add: basepath_def segs)
  from basepath_relative[OF r] segs root r show ?thesis by blast
qed

lemma output_root_relative:
  assumes "startsWith root ''/''"
  shows "\<exists>r. output_root root m = Inr r
     \<and> list_all (\<lambda>d. startsWith d ''/'')
          [dirname (join [root, main m]), dirname (join [root, module m]),
           dirname (join [root, types m])]
     \<and> \<not> startsWith r ''/'' \<and> fs_location root r = root @ ''/'' @ r"
proof -
  obtain r where r: "output_root root m = Inr r" using output_root_total by blast
  then have rel: "\<not> startsWith r ''/''"
    unfolding output_root_def by (rule basepath_relative)
  have "startsWith (dirname (join [root, x])) ''/''" for x
    by (rule dirname_absolute[OF join_absolute[OF assms]])
  then have "list_all (\<lambda>d. startsWith d ''/'')
          [dirname (join [root, main m]), dirname (join [root, module m]),
           dirname (join [root, types m])]" by simp
  moreover have "fs_location root r = root @ ''/'' @ r"
    using rel by (simp add: fs_location_def)
  ultimately show ?thesis using r rel by blast
qed

text \<open>
  C9. For every non-empty list of absolute paths, the empty root segment is
  among the segments common to all of them, and yet the path that \<open>basepath\<close>
  returns does not begin with the separator: \<open>join\<close> skips the empty segment.
  So in \<open>build\<close>, run in an absolute working directory, the three output
  directories are absolute, the output root computed from them is a relative
  path, and the existence check and the removal of the cleanup look for it
  under the working directory.
\<close>

theorem root_segment_dropped:
  "(ps \<noteq> [] \<and> (\<forall>p\<in>set ps. startsWith p ''/'') \<longrightarrow>
      (\<exists>segs r. common_segments ps = Inr segs \<and> [] \<in> set segs
         \<and> basepath ps = Inr r \<and> \<not> startsWith r ''/''))
   \<and> (startsWith (cwd e) ''/'' \<longrightarrow>
      (\<exists>r. output_root (cwd e) m = Inr r
         \<and> list_all (\<lambda>d. startsWith d ''/'')
              [dirname (join [cwd e, main m]), dirname (join [cwd e, module m]),
               dirname (join [cwd e, types m])]
         \<and> \<not> startsWith r ''/''
         \<and> clean_step b e r s =
             (if clean b \<and> fs_exists e (cwd e @ ''/'' @ r)
              then (case fs_rm e (cwd e @ ''/'' @ r) of
                      None \<Rightarrow> Returned (emit (Call_rm r) s)
                    | Some err \<Rightarrow> Threw err (emit (Call_rm r) s))
              else Returned s)))"
proof (intro conjI impI)
  assume "ps \<noteq> [] \<and> (\<forall>p\<in>set ps. startsWith p ''/'')"
  then show "\<exists>segs r. common_segments ps = Inr segs \<and> [] \<in> set segs
         \<and> basepath ps = Inr r \<and> \<not> startsWith r ''/''"
    using root_segment_shared by blast
next
  assume "startsWith (cwd e) ''/''"
  from output_root_relative[OF this, of m] obtain r where
    r: "output_root (cwd e) m = Inr r"
      "list_all (\<lambda>d. startsWith d ''/'')
              [dirname (join [cwd e, main m]), dirname (join [cwd e, module m]),
               dirname (join [cwd e, types m])]"
      "\<not> startsWith r ''/''" "fs_location (cwd e) r = cwd e @ ''/'' @ r"
    by blast
  have "clean_step b e r s =
             (if clean b \<and> fs_exists e (cwd e @ ''/'' @ r)
              then (case fs_rm e (cwd e @ ''/'' @ r) of
                      None \<Rightarrow> Returned (emit (Call_rm r) s)
                    | Some err \<Rightarrow> Threw err (emit (Call_rm r) s))
              else Returned s)"
    unfolding clean_step_def r(4) by (rule refl)
  with r(1,2,3) show "\<exists>r. output_root (cwd e) m = Inr r
         \<and> list_all (\<lambda>d. startsWith d ''/'')
              [dirname (join [cwd e, main m]), dirname (join [cwd e, module m]),
               dirname (join [cwd e, types m])]
         \<and> \<not> startsWith r ''/''
         \<and> clean_step b e r s =
             (if clean b \<and> fs_exists e (cwd e @ ''/'' @ r)
              then (case fs_rm e (cwd e @ ''/'' @ r) of
                      None \<Rightarrow> Returned (emit (Call_rm r) s)
                    | Some err \<Rightarrow> Threw err (emit (Call_rm r) s))
              else Returned s)"
    by (intro exI[where x=r] conjI)
qed

theorem root_segment_dropped_witness:
  "sample_dirs \<noteq> [] \<and> list_all (\<lambda>p. startsWith p ''/'') sample_dirs
   \<and> basepath sample_dirs = Inr ''w/dist''
   \<and> (\<exists>segs r. common_segments sample_dirs = Inr segs \<and> [] \<in> set segs
         \<and> basepath sample_dirs = Inr r \<and> \<not> startsWith r ''/'')
   \<and> startsWith (cwd stale) ''/''
   \<and> (\<exists>r. output_root (cwd stale) sample_manifest = Inr r \<and> \<not> startsWith r ''/''
         \<and> clean_step defaultOptions stale r fresh =
             (if clean defaultOptions \<and> fs_exists stale (cwd stale @ ''/'' @ r)
              then (case fs_rm stale (cwd stale @ ''/'' @ r) of
                      None \<Rightarrow> Returned (emit (Call_rm r) fresh)
                    | Some err \<Rightarrow> Threw err (emit (Call_rm r) fresh))
              else Returned fresh))
   \<and> output_root (cwd stale) sample_manifest = Inr ''w/dist''
   \<and> clean_step defaultOptions stale ''w/dist'' fresh
       = Returned \<lparr>aborted = False, trace = [Call_rm ''w/dist'']\<rparr>
   \<and> fs_exists stale ''/w/w/dist'' \<and> \<not> fs_exists stale ''/w/dist''"
proof -
  have h1: "sample_dirs \<noteq> [] \<and> (\<forall>p\<in>set sample_dirs. startsWith p ''/'')"
    by (simp add: sample_dirs_def)
  have h1': "list_all (\<lambda>p. startsWith p ''/'') sample_dirs"
    by (simp add: sample_dirs_def)
  have b: "basepath sample_dirs = Inr ''w/dist''"
    by (simp add: sample_dirs_def path_defs)
  have h2: "startsWith (cwd stale) ''/''"
    by (simp add: sample_defs stale_def)
  have o: "output_root (cwd stale) sample_manifest = Inr ''w/dist''"
    by (simp add: path_defs sample_defs stale_def)
  have c: "clean_step defaultOptions stale ''w/dist'' fresh
       = Returned \<lparr>aborted = False, trace = [Call_rm ''w/dist'']\<rparr>"
    by (simp add: clean_step_def fs_location_def emit_def sample_defs stale_def)
  have f: "fs_exists stale ''/w/w/dist'' \<and> \<not> fs_exists stale ''/w/dist''"
    by (simp add: sample_defs stale_def)
  note t = root_segment_dropped[where ps=sample_dirs and e=stale and m=sample_manifest
      and b=defaultOptions and s=fresh]
  from t[THEN conjunct1, rule_format, OF h1] t[THEN conjunct2, rule_format, OF h2]
    h1 h1' b h2 o c f
  show ?thesis by (intro conjI) blast+
qed

section \<open>The output root of a build\<close>

text \<open>
  C2. The claim: the output root used for the cleanup is the deepest common
  ancestor directory of the resolved output directories, \<open>./dist\<close> for the
  sample descriptor. In the working directory \<open>/w\<close> the three resolved output
  directories are \<open>/w/dist/cjs\<close>, \<open>/w/dist/esm\<close> and \<open>/w/dist/types\<close>, and their
  deepest common ancestor is \<open>/w/dist\<close>. The code computes \<open>w/dist\<close>: the root
  segment is lost when the shared segments are joined. With the clean flag
  enabled and \<open>/w/dist\<close> left by an earlier build, the existence check is made
  at \<open>/w/w/dist\<close>, nothing is removed, and the build runs to its end over the
  stale directory.
\<close>

theorem cleanup_misses_output_directory:
  "[dirname (join [cwd leftover, main sample_manifest]),
    dirname (join [cwd leftover, module sample_manifest]),
    dirname (join [cwd leftover, types sample_manifest])] = sample_dirs
   \<and> spec_deepest_common_ancestor sample_dirs = ''/w/dist''
   \<and> output_root (cwd leftover) sample_manifest = Inr ''w/dist''
   \<and> clean defaultOptions \<and> fs_exists leftover ''/w/dist''
   \<and> fs_location (cwd leftover) ''w/dist'' = ''/w/w/dist''
   \<and> build defaultOptions leftover sample_manifest fresh =
       Returned \<lparr>aborted = False, trace =
         [Log_output (Bundle Esm) (Announce ''/w/src/index.ts'' ''/w/dist/esm''),
          Call_bun_build Esm ''/w/src/index.ts'' ''/w/dist/esm'',
          Log_output (Bundle Esm) (Built ''/w/dist/esm''),
          Log_output (Bundle Cjs) (Announce ''/w/src/index.ts'' ''/w/dist/cjs''),
          Call_bun_build Cjs ''/w/src/index.ts'' ''/w/dist/cjs'',
          Log_output (Bundle Cjs) (Built ''/w/dist/cjs''),
          Log_output Dts (Announce ''/w/src/index.ts'' ''/w/dist/types''),
          Call_tsc ''/w/src/index.ts'' ''/w/dist/types'',
          Log_output Dts (Built ''/w/dist/types'')]\<rparr>"
proof -
  have dirs: "[dirname (join [cwd leftover, main sample_manifest]),
      dirname (join [cwd leftover, module sample_manifest]),
      dirname (join [cwd leftover, types sample_manifest])] = sample_dirs"
    by (simp add: path_defs sample_defs leftover_def sample_dirs_def)
  have ancestor: "spec_deepest_common_ancestor sample_dirs = ''/w/dist''"
    by (simp add: spec_deepest_common_ancestor_def sample_dirs_def sep_def)
  have root: "output_root (cwd leftover) sample_manifest = Inr ''w/dist''"
    by (simp add: path_defs sample_defs leftover_def)
  have there: "clean defaultOptions \<and> fs_exists leftover ''/w/dist''"
    by (simp add: sample_defs leftover_def)
  have asked: "fs_location (cwd leftover) ''w/dist'' = ''/w/w/dist''"
    by (simp add: fs_location_def sample_defs leftover_def)
  have run: "build defaultOptions leftover sample_manifest fresh =
       Returned \<lparr>aborted = False, trace =
         [Log_output (Bundle Esm) (Announce ''/w/src/index.ts'' ''/w/dist/esm''),
          Call_bun_build Esm ''/w/src/index.ts'' ''/w/dist/esm'',
          Log_output (Bundle Esm) (Built ''/w/dist/esm''),
          Log_output (Bundle Cjs) (Announce ''/w/src/index.ts'' ''/w/dist/cjs''),
          Call_bun_build Cjs ''/w/src/index.ts'' ''/w/dist/cjs'',
          Log_output (Bundle Cjs) (Built ''/w/dist/cjs''),
          Log_output Dts (Announce ''/w/src/index.ts'' ''/w/dist/types''),
          Call_tsc ''/w/src/index.ts'' ''/w/dist/types'',
          Log_output Dts (Built ''/w/dist/types'')]\<rparr>"
  proof -
    have skip: "clean_step defaultOptions leftover ''w/dist'' fresh = Returned fresh"
      by (simp add: clean_step_def fs_location_def sample_defs leftover_def)
    have paths: "join [cwd leftover, entry sample_manifest] = ''/w/src/index.ts''"
      "dirname (join [cwd leftover, module sample_manifest]) = ''/w/dist/esm''"
      "dirname (join [cwd leftover, main sample_manifest]) = ''/w/dist/cjs''"
      "dirname (join [cwd leftover, types sample_manifest]) = ''/w/dist/types''"
      by (simp_all add: path_defs sample_defs leftover_def)
    show ?thesis
      unfolding build_unfold[OF root] skip paths
      by (simp add: iife_step_def buildCommonBundle_def buildDts_def writeDtsBundle_def
          emit_def Let_def sample_defs leftover_def)
  qed
  from dirs ancestor root there asked run show ?thesis by (intro conjI) simp_all
qed

end
